theory Spec2Isabelle
  imports Main "HOL-Library.Sublist"
begin

section \<open>The JavaScript values the component handles\<close>

text \<open>
  The source is \<^verbatim>\<open>src/InputMask.tsx\<close>. A JavaScript string is modelled as a
  \<^typ>\<open>string\<close> (a list of code units), a one-character string such as
  \<^verbatim>\<open>mask[i]\<close> as a \<^typ>\<open>char\<close>, and the result of indexing a string,
  \<^verbatim>\<open>value[rawIndex]\<close>, as a \<^typ>\<open>char option\<close>: reading at or past the
  end of a string yields \<^verbatim>\<open>undefined\<close>, which is \<^term>\<open>None\<close>.
\<close>

definition get_index :: "string \<Rightarrow> nat \<Rightarrow> char option" where
  "get_index s n = (if n < length s then Some (s ! n) else None)"

text \<open>
  \<^verbatim>\<open>RegExp.prototype.test\<close> and the operator \<^verbatim>\<open>+=\<close> on a string
  convert their argument to a string first; \<^verbatim>\<open>undefined\<close> becomes the
  nine-character text \<^verbatim>\<open>"undefined"\<close>.
\<close>

definition ToString :: "char option \<Rightarrow> string" where
  "ToString c = (case c of None \<Rightarrow> ''undefined'' | Some ch \<Rightarrow> [ch])"

text \<open>
  What a JavaScript operation of the component can throw: a \<^verbatim>\<open>TypeError\<close> when
  a method is called on \<^verbatim>\<open>undefined\<close>, and a \<^verbatim>\<open>SyntaxError\<close> when
  \<^verbatim>\<open>new RegExp\<close> is given a pattern source that does not compile under the
  flags it is given.
\<close>

datatype error = TypeError | SyntaxError

subsection \<open>Regular expression objects\<close>

text \<open>
  The validation mapping has type \<^verbatim>\<open>Record<string, RegExp>\<close>. The regular
  expression engine is not code of the repository, so a pattern is taken as a parameter:
  its matcher, which for a subject and a start index either fails or returns the index
  where the match that begins exactly there ends. A \<^verbatim>\<open>RegExp\<close> object holds
  \<^item> \<open>matcher\<close>: its pattern compiled under the object's own flags;
  \<^item> \<open>bare\<close>: the same pattern source compiled with no modifier flag (no
    \<^verbatim>\<open>i\<close>, \<^verbatim>\<open>m\<close>, \<^verbatim>\<open>s\<close>, \<^verbatim>\<open>u\<close>, \<^verbatim>\<open>v\<close>), which
    is what \<^verbatim>\<open>new RegExp(r, "g")\<close> runs; it is \<open>Some\<close> of \<open>matcher\<close>
    for an object that carries none of these flags, and \<open>None\<close> when the source
    compiles only under a flag the object carries;
  \<^item> the flags \<open>global\<close> (\<^verbatim>\<open>g\<close>) and \<open>sticky\<close> (\<^verbatim>\<open>y\<close>);
  \<^item> the mutable property \<open>lastIndex\<close>.
\<close>

type_synonym matcher = "string \<Rightarrow> nat \<Rightarrow> nat option"

record RegExp =
  matcher :: matcher
  bare :: "matcher option"
  global :: bool
  sticky :: bool
  lastIndex :: nat

text \<open>
  The search of \<^verbatim>\<open>RegExpBuiltinExec\<close>: the matcher is tried at each candidate
  start index in turn, and the first success gives the end index of the match.
\<close>

fun first_match :: "matcher \<Rightarrow> string \<Rightarrow> nat list \<Rightarrow> nat option" where
  "first_match mt S [] = None"
| "first_match mt S (k # ks) =
     (case mt S k of Some e \<Rightarrow> Some e | None \<Rightarrow> first_match mt S ks)"

text \<open>
  \<^verbatim>\<open>R.test(S)\<close>. Without \<^verbatim>\<open>g\<close> and \<^verbatim>\<open>y\<close> the search starts at
  index 0 and the object is left as it was. With one of them it starts at
  \<open>lastIndex\<close> (a sticky pattern is tried there only), a success stores the end of
  the match in \<open>lastIndex\<close> and a failure stores 0. The result is the truth value
  and the object as the call leaves it.
\<close>

definition RegExp_test :: "RegExp \<Rightarrow> string \<Rightarrow> bool \<times> RegExp" where
  "RegExp_test R S =
     (let stateful = (global R \<or> sticky R);
          start = (if stateful then lastIndex R else 0);
          candidates = (if sticky R then (if start \<le> length S then [start] else [])
                        else [start ..< Suc (length S)])
      in case first_match (matcher R) S candidates of
           None \<Rightarrow> (False, if stateful then R\<lparr>lastIndex := 0\<rparr> else R)
         | Some e \<Rightarrow> (True, if stateful then R\<lparr>lastIndex := e\<rparr> else R))"

text \<open>
  \<^verbatim>\<open>new RegExp(p, "g")\<close> for \<^verbatim>\<open>p\<close> a \<^verbatim>\<open>RegExp\<close> or
  \<^verbatim>\<open>undefined\<close>: a fresh object with the source of \<^verbatim>\<open>p\<close>, the flags
  \<^verbatim>\<open>"g"\<close> alone and \<open>lastIndex\<close> 0, or a \<^verbatim>\<open>SyntaxError\<close> when
  that source does not compile under \<^verbatim>\<open>"g"\<close> alone. For
  \<^verbatim>\<open>undefined\<close> the source is the empty pattern, which matches the empty string
  at every index.
\<close>

definition empty_pattern :: matcher where
  "empty_pattern S k = Some k"

definition fresh_g :: "matcher \<Rightarrow> RegExp" where
  "fresh_g mt = \<lparr>matcher = mt, bare = Some mt, global = True, sticky = False, lastIndex = 0\<rparr>"

definition new_RegExp_g :: "RegExp option \<Rightarrow> error + RegExp" where
  "new_RegExp_g p =
     (case p of
        None \<Rightarrow> Inr (fresh_g empty_pattern)
      | Some R \<Rightarrow>
          (case bare R of
             None \<Rightarrow> Inl SyntaxError
           | Some mt \<Rightarrow> Inr (fresh_g mt)))"

text \<open>
  Patterns for concrete runs: a character class matches one code unit of the class.
  \<^verbatim>\<open>/\d/\<close> is \<open>re_digit\<close>, \<^verbatim>\<open>/\d/g\<close> (the pattern of the
  README) is \<open>re_digit_g\<close>, \<^verbatim>\<open>/[a-z]/\<close> is \<open>re_lower\<close> and
  \<^verbatim>\<open>/[a-z]/i\<close> is \<open>re_lower_i\<close>.
\<close>

definition char_class :: "string \<Rightarrow> matcher" where
  "char_class cs S k = (if k < length S \<and> S ! k \<in> set cs then Some (Suc k) else None)"

definition re_digit :: RegExp where
  "re_digit = \<lparr>matcher = char_class ''0123456789'',
                bare = Some (char_class ''0123456789''),
                global = False, sticky = False, lastIndex = 0\<rparr>"

definition re_digit_g :: RegExp where
  "re_digit_g = re_digit\<lparr>global := True\<rparr>"

definition re_lower :: RegExp where
  "re_lower = \<lparr>matcher = char_class ''abcdefghijklmnopqrstuvwxyz'',
                bare = Some (char_class ''abcdefghijklmnopqrstuvwxyz''),
                global = False, sticky = False, lastIndex = 0\<rparr>"

definition re_lower_i :: RegExp where
  "re_lower_i =
     \<lparr>matcher = char_class ''abcdefghijklmnopqrstuvwxyzABCDEFGHIJKLMNOPQRSTUVWXYZ'',
      bare = Some (char_class ''abcdefghijklmnopqrstuvwxyz''),
      global = False, sticky = False, lastIndex = 0\<rparr>"

subsection \<open>Objects and references\<close>

text \<open>
  A \<^verbatim>\<open>RegExp\<close> is an object: the mapping holds references, two keys may hold
  the same object, and \<^verbatim>\<open>test\<close> mutates the object it is called on. The
  argument \<^verbatim>\<open>replacement\<close> is therefore a map from keys to references
  (\<open>replacement\<close>) together with the objects the references stand for (\<open>heap\<close>).
  \<open>heap_of r\<close> is the heap whose every reference holds a copy of \<open>r\<close>.
\<close>

type_synonym ref = nat

type_synonym replacement = "char \<rightharpoonup> ref"

type_synonym heap = "ref \<Rightarrow> RegExp"

definition heap_of :: "RegExp \<Rightarrow> heap" where
  "heap_of r = (\<lambda>a. r)"

section \<open>applyMask\<close>

text \<open>
  The local variables of \<^verbatim>\<open>applyMask\<close>: \<open>maskedValue\<close>, \<open>rawIndex\<close>
  and the loop counter \<^verbatim>\<open>i\<close> (\<open>maskIndex\<close>), with the objects as the calls
  of \<^verbatim>\<open>test\<close> have left them (\<open>objects\<close>).
\<close>

record locals =
  maskedValue :: string
  rawIndex :: nat
  maskIndex :: nat
  objects :: heap

text \<open>How the \<^verbatim>\<open>for\<close> loop is left: by its first \<^verbatim>\<open>break\<close> (the slot's
  test failed), by its second (\<^verbatim>\<open>rawIndex >= value.length\<close>), or because
  \<^verbatim>\<open>i < mask.length\<close> became false.\<close>

datatype exit = SlotRejected | InputExhausted | MaskEnd

text \<open>The last statement of the loop body: \<^verbatim>\<open>if (rawIndex >= value.length) break\<close>.\<close>

definition check_end :: "string \<Rightarrow> locals \<Rightarrow> error + (exit option \<times> locals)" where
  "check_end value st =
     Inr (if rawIndex st \<ge> length value then Some InputExhausted else None, st)"

text \<open>
  The loop body at the mask character \<open>maskChar\<close>. The result is an error, or the
  locals after the body with \<open>Some\<close> exit when the body ran a \<^verbatim>\<open>break\<close>.
  \<^verbatim>\<open>replacement[maskChar]\<close> is looked up twice, in the condition and for the
  call of \<^verbatim>\<open>test\<close>, which throws when the entry is missing and otherwise
  mutates the object the entry refers to.
\<close>

definition body ::
    "string \<Rightarrow> replacement \<Rightarrow> char \<Rightarrow> locals \<Rightarrow> error + (exit option \<times> locals)" where
  "body value repl maskChar st =
     (if repl maskChar \<noteq> None then
        (let inputChar = get_index value (rawIndex st) in
         case repl maskChar of
           None \<Rightarrow> Inl TypeError
         | Some a \<Rightarrow>
             (case RegExp_test (objects st a) (ToString inputChar) of
                (True, R') \<Rightarrow>
                  check_end value
                    (st\<lparr>maskedValue := maskedValue st @ ToString inputChar,
                        rawIndex := Suc (rawIndex st),
                        objects := (objects st)(a := R')\<rparr>)
              | (False, R') \<Rightarrow>
                  Inr (Some SlotRejected, st\<lparr>objects := (objects st)(a := R')\<rparr>)))
      else
        (let st1 = st\<lparr>maskedValue := maskedValue st @ [maskChar]\<rparr>;
             st2 = (if get_index value (rawIndex st1) = Some maskChar
                    then st1\<lparr>rawIndex := Suc (rawIndex st1)\<rparr> else st1)
         in check_end value st2))"

text \<open>
  The loop \<^verbatim>\<open>for (let i = 0; i < mask.length; i++)\<close>, as recursion over the mask
  characters still to come: \<open>maskChar\<close> is \<^verbatim>\<open>mask[i]\<close>, and
  \<^verbatim>\<open>i++\<close> runs when the body did not break.
\<close>

fun loop :: "string \<Rightarrow> replacement \<Rightarrow> string \<Rightarrow> locals \<Rightarrow> error + (exit \<times> locals)" where
  "loop value repl [] st = Inr (MaskEnd, st)"
| "loop value repl (maskChar # rest) st =
     (case body value repl maskChar st of
        Inl e \<Rightarrow> Inl e
      | Inr (Some ex, st') \<Rightarrow> Inr (ex, st')
      | Inr (None, st') \<Rightarrow> loop value repl rest (st'\<lparr>maskIndex := Suc (maskIndex st')\<rparr>))"

text \<open>The locals on entry: \<^verbatim>\<open>maskedValue = ""\<close>, \<^verbatim>\<open>rawIndex = 0\<close>,
  \<^verbatim>\<open>i = 0\<close>.\<close>

definition entry :: "heap \<Rightarrow> locals" where
  "entry h = \<lparr>maskedValue = [], rawIndex = 0, maskIndex = 0, objects = h\<rparr>"

definition applyMask_run ::
    "string \<Rightarrow> string \<Rightarrow> replacement \<Rightarrow> heap \<Rightarrow> error + (exit \<times> locals)" where
  "applyMask_run value msk repl h = loop value repl msk (entry h)"

text \<open>\<^verbatim>\<open>applyMask(value, mask, replacement)\<close>: the value it returns.\<close>

definition applyMask :: "string \<Rightarrow> string \<Rightarrow> replacement \<Rightarrow> heap \<Rightarrow> error + string" where
  "applyMask value msk repl h =
     (case applyMask_run value msk repl h of
        Inl e \<Rightarrow> Inl e
      | Inr (ex, st) \<Rightarrow> Inr (maskedValue st))"

text \<open>
  \<^verbatim>\<open>applyMask(applyMask(value, mask, replacement), mask, replacement)\<close>: the second
  call is given the result of the first and the same \<^verbatim>\<open>replacement\<close> objects,
  in the state the first call left them.
\<close>

definition applyMask_twice :: "string \<Rightarrow> string \<Rightarrow> replacement \<Rightarrow> heap \<Rightarrow> error + string" where
  "applyMask_twice value msk repl h =
     (case applyMask_run value msk repl h of
        Inl e \<Rightarrow> Inl e
      | Inr (ex, st) \<Rightarrow> applyMask (maskedValue st) msk repl (objects st))"

text \<open>
  The run has arrived at mask position \<open>p\<close> with the locals \<open>s\<close>: the loop
  over the first \<open>p\<close> mask characters has passed them all without a
  \<^verbatim>\<open>break\<close>.
\<close>

definition arrives :: "string \<Rightarrow> string \<Rightarrow> replacement \<Rightarrow> heap \<Rightarrow> nat \<Rightarrow> locals \<Rightarrow> bool" where
  "arrives value msk repl h p s \<longleftrightarrow>
     applyMask_run value (take p msk) repl h = Inr (MaskEnd, s)"

section \<open>The input handler\<close>

text \<open>
  The strict check of the \<^verbatim>\<open>oninput\<close> handler:
  \<^verbatim>\<open>mask.split("").some((char, index) => ...)\<close>, which calls the function at each
  mask position in turn and stops at the first call that returns true, or throws. A
  position past the end of the input value has no \<open>inputChar\<close> and returns false
  at once. At every other position a fresh object
  \<^verbatim>\<open>new RegExp(replacement[char], "g")\<close> is built and tested on the input
  character; an object is never falsy, so the handler's \<^verbatim>\<open>if (!regex)\<close> is never
  taken. \<open>some_from\<close> runs the positions from \<open>index\<close> on.
\<close>

fun some_from ::
    "string \<Rightarrow> nat \<Rightarrow> string \<Rightarrow> replacement \<Rightarrow> heap \<Rightarrow> error + bool" where
  "some_from [] index input repl h = Inr False"
| "some_from (char # rest) index input repl h =
     (case get_index input index of
        None \<Rightarrow> some_from rest (Suc index) input repl h
      | Some inputChar \<Rightarrow>
          (case new_RegExp_g (map_option h (repl char)) of
             Inl e \<Rightarrow> Inl e
           | Inr regex \<Rightarrow>
               if \<not> fst (RegExp_test regex [inputChar]) then Inr True
               else some_from rest (Suc index) input repl h))"

definition forbidden :: "string \<Rightarrow> string \<Rightarrow> replacement \<Rightarrow> heap \<Rightarrow> error + bool" where
  "forbidden msk input repl h = some_from msk 0 input repl h"

text \<open>
  What the handler reads and writes: \<^verbatim>\<open>this.value\<close>, the
  \<^verbatim>\<open>value\<close> of the input element, and the bound property
  \<^verbatim>\<open>object[property]\<close>.
\<close>

record component =
  this_value :: string
  input_value :: string
  bound :: string

text \<open>
  The handler. \<open>allowunmatches\<close> is the property of that name (absent counts as
  false). The callback \<^verbatim>\<open>onmasked\<close> is outside the repository; it is given the
  raw input value and may write the bound property, so it is modelled as a function from
  the raw value and the property's value to the property's new value. The result is the
  component after the event, with the \<^verbatim>\<open>RegExp\<close> objects as the call of
  \<^verbatim>\<open>applyMask\<close> left them.
\<close>

definition oninput ::
    "bool \<Rightarrow> string \<Rightarrow> replacement \<Rightarrow> heap \<Rightarrow> (string \<Rightarrow> string \<Rightarrow> string) option \<Rightarrow>
     component \<Rightarrow> error + (component \<times> heap)" where
  "oninput allowunmatches msk repl h onmasked c =
     (case (if \<not> allowunmatches then forbidden msk (input_value c) repl h else Inr False) of
        Inl e \<Rightarrow> Inl e
      | Inr True \<Rightarrow> Inr (c\<lparr>input_value := this_value c\<rparr>, h)
      | Inr False \<Rightarrow>
          (case applyMask_run (input_value c) msk repl h of
             Inl e \<Rightarrow> Inl e
           | Inr (ex, st) \<Rightarrow>
               (let c1 = c\<lparr>this_value := maskedValue st\<rparr>;
                    c2 = c1\<lparr>bound := this_value c1\<rparr>;
                    c3 = (case onmasked of
                            None \<Rightarrow> c2
                          | Some f \<Rightarrow> c2\<lparr>bound := f (input_value c2) (bound c2)\<rparr>)
                in Inr (c3\<lparr>this_value := bound c3\<rparr>, objects st))))"

section \<open>The loop, step by step\<close>

lemma entry_simps [simp]:
  "maskedValue (entry h) = []" "rawIndex (entry h) = 0"
  "maskIndex (entry h) = 0" "objects (entry h) = h"
  by (simp_all add: entry_def)

lemma get_index_None_iff: "get_index s n = None \<longleftrightarrow> length s \<le> n"
  by (auto simp: get_index_def)

text \<open>The body never throws: \<^verbatim>\<open>test\<close> is only called on an entry that exists.\<close>

lemma body_Inr: "\<exists>b st'. body x v c st = Inr (b, st')"
  unfolding body_def check_end_def
  by (auto simp: Let_def split: option.splits prod.splits bool.splits)

lemma body_facts:
  assumes "body x v c st = Inr (b, st')"
  shows "maskIndex st' = maskIndex st"
    and "rawIndex st \<le> rawIndex st'"
    and "rawIndex st' \<le> Suc (rawIndex st)"
    and "b = None \<Longrightarrow> rawIndex st' < length x"
    and "b = Some InputExhausted \<Longrightarrow> length x \<le> rawIndex st'"
    and "b = Some SlotRejected \<Longrightarrow> rawIndex st' = rawIndex st \<and> maskedValue st' = maskedValue st"
    and "b \<noteq> Some MaskEnd"
  using assms unfolding body_def check_end_def
  by (auto simp: Let_def split: option.splits prod.splits bool.splits if_splits)

text \<open>What the body does at a mask character with no entry in the mapping.\<close>

lemma body_literal:
  assumes "v c = None"
  shows "body x v c st =
     Inr (if length x \<le> (if get_index x (rawIndex st) = Some c then Suc (rawIndex st) else rawIndex st)
          then Some InputExhausted else None,
          st\<lparr>maskedValue := maskedValue st @ [c],
             rawIndex := (if get_index x (rawIndex st) = Some c then Suc (rawIndex st) else rawIndex st)\<rparr>)"
  using assms unfolding body_def check_end_def
  by (simp add: Let_def)

lemma loop_Inr: "\<exists>ex st'. loop x v m st = Inr (ex, st')"
proof (induction m arbitrary: st)
  case Nil
  show ?case by simp
next
  case (Cons c rest)
  obtain b st1 where b: "body x v c st = Inr (b, st1)"
    using body_Inr by blast
  show ?case
  proof (cases b)
    case None
    with b Cons show ?thesis by simp
  next
    case (Some ex)
    with b show ?thesis by simp
  qed
qed

text \<open>Neither cursor ever moves back.\<close>

lemma loop_mono:
  assumes "loop x v m st = Inr (ex, st')"
  shows "rawIndex st \<le> rawIndex st' \<and> maskIndex st \<le> maskIndex st'"
  using assms
proof (induction m arbitrary: st)
  case Nil
  then show ?case by simp
next
  case (Cons c rest)
  obtain b st1 where b: "body x v c st = Inr (b, st1)"
    using body_Inr by blast
  show ?case
  proof (cases b)
    case None
    from None b Cons.prems
    have "loop x v rest (st1\<lparr>maskIndex := Suc (maskIndex st1)\<rparr>) = Inr (ex, st')" by simp
    from Cons.IH[OF this] body_facts(1,2)[OF b] show ?thesis by simp
  next
    case (Some e)
    from Some b Cons.prems have "st1 = st'" by simp
    with body_facts(1,2)[OF b] show ?thesis by simp
  qed
qed

text \<open>A run over a mask in two parts: the second part runs from where the first ended,
  unless the first part left the loop by v a \<^verbatim>\<open>break\<close>.\<close>

lemma loop_append:
  "loop x v (m1 @ m2) st =
     (case loop x v m1 st of
        Inr (MaskEnd, st') \<Rightarrow> loop x v m2 st'
      | other \<Rightarrow> other)"
proof (induction m1 arbitrary: st)
  case Nil
  show ?case by simp
next
  case (Cons c rest)
  obtain b st1 where b: "body x v c st = Inr (b, st1)"
    using body_Inr by blast
  show ?case
  proof (cases b)
    case None
    with b Cons show ?thesis by simp
  next
    case (Some ex)
    with b body_facts(7)[OF b] show ?thesis by (cases ex) simp_all
  qed
qed

text \<open>
  Every run splits at the position \<open>p\<close> where it ends: the mask positions before
  \<open>p\<close> are all processed without a \<^verbatim>\<open>break\<close>, and unless the mask is
  used up, the body at v position \<open>p\<close> breaks.
\<close>

lemma loop_decompose:
  assumes "loop x v m st = Inr (ex, st')"
  shows "\<exists>p s0. maskIndex st' = maskIndex st + p \<and> p \<le> length m \<and>
           loop x v (take p m) st = Inr (MaskEnd, s0) \<and>
           (if ex = MaskEnd then p = length m \<and> s0 = st'
            else p < length m \<and> body x v (m ! p) s0 = Inr (Some ex, st'))"
  using assms
proof (induction m arbitrary: st)
  case Nil
  then show ?case by auto
next
  case (Cons c rest)
  obtain b st1 where b: "body x v c st = Inr (b, st1)"
    using body_Inr by blast
  show ?case
  proof (cases b)
    case (Some e)
    with b Cons.prems have e: "e = ex" "st1 = st'" by simp_all
    have "maskIndex st' = maskIndex st + 0" using body_facts(1)[OF b] e by simp
    moreover have "loop x v (take 0 (c # rest)) st = Inr (MaskEnd, st)" by simp
    moreover have "ex \<noteq> MaskEnd" using body_facts(7)[OF b] Some e by simp
    moreover have "body x v ((c # rest) ! 0) st = Inr (Some ex, st')" using b Some e by simp
    ultimately show ?thesis
      by (intro exI[of _ 0] exI[of _ st]) simp
  next
    case None
    let ?s = "st1\<lparr>maskIndex := Suc (maskIndex st1)\<rparr>"
    from None b Cons.prems have run: "loop x v rest ?s = Inr (ex, st')" by simp
    from Cons.IH[OF run] obtain p s0 where
      p: "maskIndex st' = maskIndex ?s + p" "p \<le> length rest"
         "loop x v (take p rest) ?s = Inr (MaskEnd, s0)"
         "if ex = MaskEnd then p = length rest \<and> s0 = st'
          else p < length rest \<and> body x v (rest ! p) s0 = Inr (Some ex, st')"
      by blast
    have "maskIndex st' = maskIndex st + Suc p" using p(1) body_facts(1)[OF b] by simp
    moreover have "loop x v (take (Suc p) (c # rest)) st = Inr (MaskEnd, s0)"
      using p(3) b None by simp
    moreover have "if ex = MaskEnd then Suc p = length (c # rest) \<and> s0 = st'
          else Suc p < length (c # rest) \<and> body x v ((c # rest) ! Suc p) s0 = Inr (Some ex, st')"
      using p(4) by (auto split: if_splits)
    ultimately show ?thesis using p(2)
      by (intro exI[of _ "Suc p"] exI[of _ s0]) simp
  qed
qed

text \<open>
  A run reads the raw input only through \<^verbatim>\<open>value[rawIndex]\<close> and
  \<^verbatim>\<open>rawIndex >= value.length\<close>, at cursors up to the one it ends with.
\<close>

lemma body_agree:
  assumes "body x v c st = Inr (b, st')"
    and "\<forall>j \<le> rawIndex st'. get_index x' j = get_index x j"
  shows "body x' v c st = Inr (b, st')"
proof -
  have a: "get_index x' (rawIndex st) = get_index x (rawIndex st)"
    using assms(2) body_facts(2)[OF assms(1)] by simp
  have e: "(length x' \<le> rawIndex st') = (length x \<le> rawIndex st')"
    using assms(2) get_index_None_iff[of x' "rawIndex st'"] get_index_None_iff[of x "rawIndex st'"]
    by simp
  show ?thesis
    using assms(1) a e unfolding body_def check_end_def
    by (auto simp: Let_def split: option.splits prod.splits bool.splits if_splits)
qed

lemma loop_agree:
  assumes "loop x v m st = Inr (ex, st')"
    and "\<forall>j \<le> rawIndex st'. get_index x' j = get_index x j"
  shows "loop x' v m st = Inr (ex, st')"
  using assms
proof (induction m arbitrary: st)
  case Nil
  then show ?case by simp
next
  case (Cons c rest)
  obtain b st1 where b: "body x v c st = Inr (b, st1)"
    using body_Inr by blast
  show ?case
  proof (cases b)
    case (Some e)
    with b Cons.prems(1) have e: "e = ex" "st1 = st'" by simp_all
    from body_agree[OF b] Cons.prems(2) e have "body x' v c st = Inr (b, st1)" by simp
    with Some e show ?thesis by simp
  next
    case None
    let ?s = "st1\<lparr>maskIndex := Suc (maskIndex st1)\<rparr>"
    from None b Cons.prems(1) have run: "loop x v rest ?s = Inr (ex, st')" by simp
    have "rawIndex st1 \<le> rawIndex st'" using loop_mono[OF run] by simp
    with Cons.prems(2) have "\<forall>j \<le> rawIndex st1. get_index x' j = get_index x j" by simp
    from body_agree[OF b this] have "body x' v c st = Inr (b, st1)" .
    with None Cons.IH[OF run Cons.prems(2)] show ?thesis by simp
  qed
qed

lemma loop_MaskEnd_prefix:
  assumes "loop x v (m1 @ m2) st = Inr (MaskEnd, st')"
  shows "\<exists>s1. loop x v m1 st = Inr (MaskEnd, s1)"
proof -
  obtain ex s1 where r: "loop x v m1 st = Inr (ex, s1)"
    using loop_Inr by blast
  with assms have "ex = MaskEnd"
    by (cases ex) (simp_all add: loop_append)
  with r show ?thesis by blast
qed

lemma loop_MaskEnd_inside:
  assumes "m \<noteq> []" and "loop x v m st = Inr (MaskEnd, st')"
  shows "rawIndex st' < length x"
proof -
  from assms(1) have m: "m = butlast m @ [last m]" by simp
  with assms(2) have run: "loop x v (butlast m @ [last m]) st = Inr (MaskEnd, st')" by simp
  from loop_MaskEnd_prefix[OF run] obtain s1 where s1: "loop x v (butlast m) st = Inr (MaskEnd, s1)"
    by blast
  with run have l: "loop x v [last m] s1 = Inr (MaskEnd, st')"
    by (simp add: loop_append)
  obtain b s2 where b: "body x v (last m) s1 = Inr (b, s2)"
    using body_Inr by blast
  show ?thesis
  proof (cases b)
    case None
    with b l have "st' = s2\<lparr>maskIndex := Suc (maskIndex s2)\<rparr>" by simp
    with body_facts(4)[OF b None] show ?thesis by simp
  next
    case (Some e)
    with b l body_facts(7)[OF b] show ?thesis by simp
  qed
qed

lemma loop_mask_agree:
  assumes run: "loop x v m st = Inr (ex, st')"
    and ex: "ex \<noteq> MaskEnd"
    and tk: "take (Suc (maskIndex st' - maskIndex st)) m' = take (Suc (maskIndex st' - maskIndex st)) m"
  shows "loop x v m' st = Inr (ex, st')"
proof -
  from loop_decompose[OF run] ex obtain p s0 where
    p: "maskIndex st' = maskIndex st + p" "p < length m"
       "loop x v (take p m) st = Inr (MaskEnd, s0)"
       "body x v (m ! p) s0 = Inr (Some ex, st')"
    by (auto split: if_splits)
  from p(1) tk have tk': "take (Suc p) m' = take (Suc p) m" by simp
  have "length (take (Suc p) m') = Suc p" using tk' p(2) by simp
  then have pl: "p < length m'" by simp
  have t1: "take p m' = take p m"
    using arg_cong[OF tk', of "take p"] by (simp add: min_def)
  have t2: "m' ! p = m ! p"
    using arg_cong[OF tk', of "\<lambda>l. l ! p"] by simp
  have "m' = take p m @ (m ! p) # drop (Suc p) m'"
    using id_take_nth_drop[OF pl] t1 t2 by simp
  then have "loop x v m' st = loop x v (take p m @ (m ! p) # drop (Suc p) m') st" by simp
  also have "\<dots> = Inr (ex, st')"
    using p(3,4) by (simp add: loop_append)
  finally show ?thesis .
qed

text \<open>What the body does at a mask character that has an entry in the mapping.\<close>

lemma body_slot:
  assumes "v c = Some a"
  shows "body x v c st =
     (let T = ToString (get_index x (rawIndex st));
          s' = st\<lparr>objects := (objects st)(a := snd (RegExp_test (objects st a) T))\<rparr>
      in if fst (RegExp_test (objects st a) T)
         then Inr (if length x \<le> Suc (rawIndex st) then Some InputExhausted else None,
                   s'\<lparr>maskedValue := maskedValue st @ T, rawIndex := Suc (rawIndex st)\<rparr>)
         else Inr (Some SlotRejected, s'))"
proof -
  obtain ok R' where t: "RegExp_test (objects st a) (ToString (get_index x (rawIndex st))) = (ok, R')"
    by (cases "RegExp_test (objects st a) (ToString (get_index x (rawIndex st)))") auto
  show ?thesis
    using assms t unfolding body_def check_end_def
    by (cases ok) (simp_all add: Let_def)
qed

text \<open>A run that uses up the mask has counted every mask character.\<close>

lemma loop_MaskEnd_index:
  assumes "loop x v m st = Inr (MaskEnd, st')"
  shows "maskIndex st' = maskIndex st + length m"
  using loop_decompose[OF assms] by auto

text \<open>
  One step of a run: from the locals on arrival at position \<open>p\<close>, the run is what
  the body at \<open>p\<close> makes of it.
\<close>

lemma arrives_index:
  assumes "p \<le> length m" and "arrives x m v h p s"
  shows "maskIndex s = p"
  using loop_MaskEnd_index[of x v "take p m" "entry h" s] assms
  by (simp add: arrives_def applyMask_run_def entry_def)

lemma arrives_step:
  assumes p: "p < length m" and a: "arrives x m v h p s"
  shows "applyMask_run x m v h =
           (case body x v (m ! p) s of
              Inl e \<Rightarrow> Inl e
            | Inr (Some ex, s1) \<Rightarrow> Inr (ex, s1)
            | Inr (None, s1) \<Rightarrow>
                loop x v (drop (Suc p) m) (s1\<lparr>maskIndex := Suc (maskIndex s1)\<rparr>))"
    and "body x v (m ! p) s = Inr (None, s1) \<Longrightarrow>
           arrives x m v h (Suc p) (s1\<lparr>maskIndex := Suc (maskIndex s1)\<rparr>)"
proof -
  from a have l: "loop x v (take p m) (entry h) = Inr (MaskEnd, s)"
    by (simp add: arrives_def applyMask_run_def)
  have "m = take p m @ (m ! p) # drop (Suc p) m"
    using id_take_nth_drop[OF p] .
  then have "loop x v m (entry h) = loop x v (take p m @ (m ! p) # drop (Suc p) m) (entry h)"
    by simp
  also have "\<dots> = loop x v ((m ! p) # drop (Suc p) m) s"
    using l by (simp add: loop_append)
  finally show "applyMask_run x m v h =
           (case body x v (m ! p) s of
              Inl e \<Rightarrow> Inl e
            | Inr (Some ex, s1) \<Rightarrow> Inr (ex, s1)
            | Inr (None, s1) \<Rightarrow>
                loop x v (drop (Suc p) m) (s1\<lparr>maskIndex := Suc (maskIndex s1)\<rparr>))"
    by (simp add: applyMask_run_def)
next
  assume b: "body x v (m ! p) s = Inr (None, s1)"
  from a have l: "loop x v (take p m) (entry h) = Inr (MaskEnd, s)"
    by (simp add: arrives_def applyMask_run_def)
  have "take (Suc p) m = take p m @ [m ! p]"
    using take_Suc_conv_app_nth[OF p] .
  then have "loop x v (take (Suc p) m) (entry h) = loop x v [m ! p] s"
    using l by (simp add: loop_append)
  with b show "arrives x m v h (Suc p) (s1\<lparr>maskIndex := Suc (maskIndex s1)\<rparr>)"
    by (simp add: arrives_def applyMask_run_def)
qed

text \<open>At a slot on which the run has arrived: what a failing and a passing test do.\<close>

lemma arrives_slot:
  assumes p: "p < length m" and a: "arrives x m v h p s" and k: "v (m ! p) = Some a"
  shows "(let T = ToString (get_index x (rawIndex s));
              s' = s\<lparr>objects := (objects s)(a := snd (RegExp_test (objects s a) T))\<rparr>
          in if fst (RegExp_test (objects s a) T)
             then (let s1 = s'\<lparr>maskedValue := maskedValue s @ T, rawIndex := Suc (rawIndex s)\<rparr>
                   in if length x \<le> Suc (rawIndex s)
                      then applyMask_run x m v h = Inr (InputExhausted, s1)
                      else arrives x m v h (Suc p) (s1\<lparr>maskIndex := Suc p\<rparr>))
             else applyMask_run x m v h = Inr (SlotRejected, s'))"
proof -
  let ?T = "ToString (get_index x (rawIndex s))"
  let ?s' = "s\<lparr>objects := (objects s)(a := snd (RegExp_test (objects s a) ?T))\<rparr>"
  let ?s1 = "?s'\<lparr>maskedValue := maskedValue s @ ?T, rawIndex := Suc (rawIndex s)\<rparr>"
  have i: "maskIndex s = p" using arrives_index[OF _ a] p by simp
  show ?thesis
  proof (cases "fst (RegExp_test (objects s a) ?T)")
    case False
    then have "body x v (m ! p) s = Inr (Some SlotRejected, ?s')"
      by (simp add: body_slot[where v=v and c="m ! p", OF k] Let_def)
    with arrives_step(1)[OF p a] False show ?thesis by (simp add: Let_def)
  next
    case True
    show ?thesis
    proof (cases "length x \<le> Suc (rawIndex s)")
      case e: True
      with True have "body x v (m ! p) s = Inr (Some InputExhausted, ?s1)"
        by (simp add: body_slot[where v=v and c="m ! p", OF k] Let_def)
      with arrives_step(1)[OF p a] True e show ?thesis by (simp add: Let_def)
    next
      case e: False
      with True have "body x v (m ! p) s = Inr (None, ?s1)"
        by (simp add: body_slot[where v=v and c="m ! p", OF k] Let_def)
      from arrives_step(2)[OF p a this] i True e show ?thesis by (simp add: Let_def)
    qed
  qed
qed

text \<open>At a literal on which the run has arrived.\<close>

lemma arrives_literal:
  assumes p: "p < length m" and a: "arrives x m v h p s" and k: "v (m ! p) = None"
  shows "(let r = (if get_index x (rawIndex s) = Some (m ! p)
                   then Suc (rawIndex s) else rawIndex s);
              s1 = s\<lparr>maskedValue := maskedValue s @ [m ! p], rawIndex := r\<rparr>
          in if length x \<le> r
             then applyMask_run x m v h = Inr (InputExhausted, s1)
             else arrives x m v h (Suc p) (s1\<lparr>maskIndex := Suc p\<rparr>))"
proof -
  let ?r = "if get_index x (rawIndex s) = Some (m ! p) then Suc (rawIndex s) else rawIndex s"
  let ?s1 = "s\<lparr>maskedValue := maskedValue s @ [m ! p], rawIndex := ?r\<rparr>"
  have i: "maskIndex s = p" using arrives_index[OF _ a] p by simp
  show ?thesis
  proof (cases "length x \<le> ?r")
    case True
    then have "body x v (m ! p) s = Inr (Some InputExhausted, ?s1)"
      by (simp add: body_literal[where v=v and c="m ! p", OF k])
    with arrives_step(1)[OF p a] True show ?thesis by (simp add: Let_def)
  next
    case False
    then have "body x v (m ! p) s = Inr (None, ?s1)"
      by (simp add: body_literal[where v=v and c="m ! p", OF k])
    from arrives_step(2)[OF p a this] i False show ?thesis by (simp add: Let_def)
  qed
qed

lemma arrives_earlier:
  assumes "arrives x m v h p s" and "q \<le> p"
  shows "\<exists>sq. arrives x m v h q sq"
proof -
  have "take q (take p m) = take q m"
    using assms(2) by (simp add: min_def)
  then have "take p m = take q m @ drop q (take p m)"
    using append_take_drop_id[of q "take p m"] by simp
  with assms(1) have "loop x v (take q m @ drop q (take p m)) (entry h) = Inr (MaskEnd, s)"
    by (simp add: arrives_def applyMask_run_def)
  from loop_MaskEnd_prefix[OF this] show ?thesis
    by (simp add: arrives_def applyMask_run_def)
qed

lemma arrives_inside:
  assumes "0 < p" and "p \<le> length m" and "arrives x m v h p s"
  shows "rawIndex s < length x"
proof -
  have "take p m \<noteq> []" using assms(1,2) by auto
  from loop_MaskEnd_inside[OF this] assms(3) show ?thesis
    by (simp add: arrives_def applyMask_run_def)
qed

section \<open>Where the loop stops\<close>

text \<open>
  C1, as the spec states it: the run stops at the first slot whose next available input
  character fails the slot's rule, or at the end of the first mask position after which
  the raw cursor has reached or passed the end of the raw input. On the raw input
  \<^verbatim>\<open>"123"\<close> under the mask \<^verbatim>\<open>"9"\<close> with digits in the slot neither
  happens: the only slot accepts \<^verbatim>\<open>"1"\<close>, the cursor is then at 1 of 3, and the
  run stops because the mask is used up, with two raw characters never consulted.
\<close>

theorem applyMask_stopping_point_counterexample:
  "map_sum id (\<lambda>(e, s). (e, maskIndex s, rawIndex s, maskedValue s))
     (applyMask_run ''123'' ''9'' [CHR ''9'' \<mapsto> 0] (heap_of re_digit)) =
     Inr (MaskEnd, 1, 1, ''1'') \<and>
   fst (RegExp_test re_digit ''1'') \<and> \<not> length ''123'' \<le> 1"
proof (intro conjI)
  show "map_sum id (\<lambda>(e, s). (e, maskIndex s, rawIndex s, maskedValue s))
     (applyMask_run ''123'' ''9'' [CHR ''9'' \<mapsto> 0] (heap_of re_digit)) =
     Inr (MaskEnd, 1, 1, ''1'')"
    by code_simp
  show "fst (RegExp_test re_digit ''1'')" by code_simp
  show "\<not> length ''123'' \<le> 1" by simp
qed

text \<open>
  C1, amended. For every raw input \<open>x\<close>, mask \<open>m\<close> and validation mapping (the
  keys \<open>v\<close> with their objects \<open>h\<close>, shared between keys or not) the run of
  \<^verbatim>\<open>applyMask\<close> goes through the mask positions in order, from position 0 with
  the empty output and the raw cursor 0, and
  \<^item> on arriving at a slot, it tests the slot's rule on the next available input
    character: if the test fails the run stops there, with the output and the cursor as
    they were on arrival; if it passes, the character is appended and the cursor advances;
  \<^item> on arriving at a literal, it appends the literal and advances the cursor when the
    raw character at the cursor is that literal;
  \<^item> after a position that did not reject, the run stops if the raw cursor has reached
    or passed the end of \<open>x\<close>, and arrives on the next position otherwise;
  \<^item> on arriving past the last position the run stops, the mask being used up.

  So the run stops at the first slot position whose next available input character fails
  that slot's rule, or at the end of the first mask position after which the raw cursor
  has reached or passed the end of \<open>x\<close>, or at the end of the mask, whichever comes
  first: every earlier slot has passed its test and after every earlier position the
  cursor was still inside \<open>x\<close>. The mask after the stopping position is not looked
  at. No raw character beyond the stopping point is consulted: any raw input that reads
  the same at every index up to the final raw cursor (\<^verbatim>\<open>undefined\<close> past the end
  included) gives the same output.
\<close>

theorem applyMask_stopping_point:
  "arrives x m v h 0 (entry h) \<and>
   (\<forall>p s a. p < length m \<and> arrives x m v h p s \<and> v (m ! p) = Some a \<longrightarrow>
      (let T = ToString (get_index x (rawIndex s));
           s' = s\<lparr>objects := (objects s)(a := snd (RegExp_test (objects s a) T))\<rparr>
       in if fst (RegExp_test (objects s a) T)
          then (let s1 = s'\<lparr>maskedValue := maskedValue s @ T, rawIndex := Suc (rawIndex s)\<rparr>
                in if length x \<le> Suc (rawIndex s)
                   then applyMask_run x m v h = Inr (InputExhausted, s1)
                   else arrives x m v h (Suc p) (s1\<lparr>maskIndex := Suc p\<rparr>))
          else applyMask_run x m v h = Inr (SlotRejected, s'))) \<and>
   (\<forall>p s. p < length m \<and> arrives x m v h p s \<and> v (m ! p) = None \<longrightarrow>
      (let r = (if get_index x (rawIndex s) = Some (m ! p)
                then Suc (rawIndex s) else rawIndex s);
           s1 = s\<lparr>maskedValue := maskedValue s @ [m ! p], rawIndex := r\<rparr>
       in if length x \<le> r
          then applyMask_run x m v h = Inr (InputExhausted, s1)
          else arrives x m v h (Suc p) (s1\<lparr>maskIndex := Suc p\<rparr>))) \<and>
   (\<forall>s. arrives x m v h (length m) s \<longrightarrow> applyMask_run x m v h = Inr (MaskEnd, s)) \<and>
   (\<exists>ex st. applyMask_run x m v h = Inr (ex, st) \<and> maskIndex st \<le> length m \<and>
      (\<forall>q < maskIndex st. \<exists>sq sq'.
          arrives x m v h q sq \<and>
          (\<forall>a. v (m ! q) = Some a \<longrightarrow>
               fst (RegExp_test (objects sq a) (ToString (get_index x (rawIndex sq))))) \<and>
          arrives x m v h (Suc q) sq' \<and> rawIndex sq' < length x) \<and>
      (\<exists>s0. arrives x m v h (maskIndex st) s0 \<and>
         (case ex of
            SlotRejected \<Rightarrow>
              maskIndex st < length m \<and>
              (\<exists>a. v (m ! maskIndex st) = Some a \<and>
                   \<not> fst (RegExp_test (objects s0 a) (ToString (get_index x (rawIndex s0))))) \<and>
              maskedValue st = maskedValue s0 \<and> rawIndex st = rawIndex s0
          | InputExhausted \<Rightarrow> maskIndex st < length m \<and> length x \<le> rawIndex st
          | MaskEnd \<Rightarrow> maskIndex st = length m \<and> st = s0)) \<and>
      (ex \<noteq> MaskEnd \<longrightarrow>
         (\<forall>m'. take (Suc (maskIndex st)) m' = take (Suc (maskIndex st)) m \<longrightarrow>
               applyMask x m' v h = applyMask x m v h)) \<and>
      (\<forall>x'. (\<forall>j \<le> rawIndex st. get_index x' j = get_index x j) \<longrightarrow>
            applyMask x' m v h = applyMask x m v h))"
proof -
  have f0: "arrives x m v h 0 (entry h)"
    by (simp add: arrives_def applyMask_run_def)
  have f1: "\<forall>p s a. p < length m \<and> arrives x m v h p s \<and> v (m ! p) = Some a \<longrightarrow>
      (let T = ToString (get_index x (rawIndex s));
           s' = s\<lparr>objects := (objects s)(a := snd (RegExp_test (objects s a) T))\<rparr>
       in if fst (RegExp_test (objects s a) T)
          then (let s1 = s'\<lparr>maskedValue := maskedValue s @ T, rawIndex := Suc (rawIndex s)\<rparr>
                in if length x \<le> Suc (rawIndex s)
                   then applyMask_run x m v h = Inr (InputExhausted, s1)
                   else arrives x m v h (Suc p) (s1\<lparr>maskIndex := Suc p\<rparr>))
          else applyMask_run x m v h = Inr (SlotRejected, s'))"
    using arrives_slot by blast
  have f2: "\<forall>p s. p < length m \<and> arrives x m v h p s \<and> v (m ! p) = None \<longrightarrow>
      (let r = (if get_index x (rawIndex s) = Some (m ! p)
                then Suc (rawIndex s) else rawIndex s);
           s1 = s\<lparr>maskedValue := maskedValue s @ [m ! p], rawIndex := r\<rparr>
       in if length x \<le> r
          then applyMask_run x m v h = Inr (InputExhausted, s1)
          else arrives x m v h (Suc p) (s1\<lparr>maskIndex := Suc p\<rparr>))"
    using arrives_literal by blast
  have f3: "\<forall>s. arrives x m v h (length m) s \<longrightarrow> applyMask_run x m v h = Inr (MaskEnd, s)"
    by (simp add: arrives_def)
  obtain ex st where run: "loop x v m (entry h) = Inr (ex, st)"
    using loop_Inr by blast
  have r0: "applyMask_run x m v h = Inr (ex, st)"
    using run by (simp add: applyMask_run_def)
  from loop_decompose[OF run] obtain p s0 where
    p: "maskIndex st = p" "p \<le> length m"
       "loop x v (take p m) (entry h) = Inr (MaskEnd, s0)"
       "if ex = MaskEnd then p = length m \<and> s0 = st
        else p < length m \<and> body x v (m ! p) s0 = Inr (Some ex, st)"
    by (auto simp: entry_def)
  have ap: "arrives x m v h p s0"
    using p(3) by (simp add: arrives_def applyMask_run_def)
  have earlier: "\<exists>sq sq'. arrives x m v h q sq \<and>
          (\<forall>a. v (m ! q) = Some a \<longrightarrow>
               fst (RegExp_test (objects sq a) (ToString (get_index x (rawIndex sq))))) \<and>
          arrives x m v h (Suc q) sq' \<and> rawIndex sq' < length x"
    if q: "q < p" for q
  proof -
    from arrives_earlier[OF ap, of q] q obtain sq where sq: "arrives x m v h q sq" by auto
    from arrives_earlier[OF ap, of "Suc q"] q obtain sq' where sq': "arrives x m v h (Suc q) sq'"
      by auto
    have ql: "q < length m" using q p(2) by simp
    have i: "rawIndex sq' < length x"
      using arrives_inside[OF _ _ sq'] ql by simp
    have pass: "fst (RegExp_test (objects sq a) (ToString (get_index x (rawIndex sq))))"
      if k: "v (m ! q) = Some a" for a
    proof (rule ccontr)
      assume n: "\<not> fst (RegExp_test (objects sq a) (ToString (get_index x (rawIndex sq))))"
      let ?s' = "sq\<lparr>objects := (objects sq)(a := snd (RegExp_test (objects sq a)
                      (ToString (get_index x (rawIndex sq)))))\<rparr>"
      from arrives_slot[OF ql sq k] n have "applyMask_run x m v h = Inr (SlotRejected, ?s')"
        by (simp add: Let_def)
      with r0 have "st = ?s'" by simp
      then have "maskIndex st = maskIndex sq" by simp
      with arrives_index[OF _ sq] ql p(1) q show False by simp
    qed
    from sq sq' i pass show ?thesis by blast
  qed
  have stop: "case ex of
           SlotRejected \<Rightarrow>
             p < length m \<and>
             (\<exists>a. v (m ! p) = Some a \<and>
                  \<not> fst (RegExp_test (objects s0 a) (ToString (get_index x (rawIndex s0))))) \<and>
             maskedValue st = maskedValue s0 \<and> rawIndex st = rawIndex s0
         | InputExhausted \<Rightarrow> p < length m \<and> length x \<le> rawIndex st
         | MaskEnd \<Rightarrow> p = length m \<and> st = s0"
  proof (cases ex)
    case SlotRejected
    with p(4) have b: "p < length m" "body x v (m ! p) s0 = Inr (Some SlotRejected, st)" by simp_all
    from b(2) have "\<exists>a. v (m ! p) = Some a \<and>
                  \<not> fst (RegExp_test (objects s0 a) (ToString (get_index x (rawIndex s0))))"
      unfolding body_def check_end_def
      by (auto simp: Let_def split: option.splits prod.splits bool.splits if_splits)
    with b body_facts(6)[OF b(2)] SlotRejected show ?thesis by simp
  next
    case InputExhausted
    with p(4) have b: "p < length m" "body x v (m ! p) s0 = Inr (Some InputExhausted, st)" by simp_all
    with body_facts(5)[OF b(2)] InputExhausted show ?thesis by simp
  next
    case MaskEnd
    with p(4) show ?thesis by simp
  qed
  have masks: "applyMask x m' v h = applyMask x m v h"
    if "ex \<noteq> MaskEnd" "take (Suc p) m' = take (Suc p) m" for m'
  proof -
    from that p(1) have "take (Suc (maskIndex st - maskIndex (entry h))) m' =
        take (Suc (maskIndex st - maskIndex (entry h))) m"
      by (simp add: entry_def)
    from loop_mask_agree[OF run that(1) this] run show ?thesis
      by (simp add: applyMask_def applyMask_run_def)
  qed
  have inputs: "applyMask x' m v h = applyMask x m v h"
    if "\<forall>j \<le> rawIndex st. get_index x' j = get_index x j" for x'
    using loop_agree[OF run that] run by (simp add: applyMask_def applyMask_run_def)
  have c1: "maskIndex st \<le> length m" using p(1,2) by simp
  have c2: "\<forall>q < maskIndex st. \<exists>sq sq'.
          arrives x m v h q sq \<and>
          (\<forall>a. v (m ! q) = Some a \<longrightarrow>
               fst (RegExp_test (objects sq a) (ToString (get_index x (rawIndex sq))))) \<and>
          arrives x m v h (Suc q) sq' \<and> rawIndex sq' < length x"
    using earlier unfolding p(1) by blast
  have c3: "\<exists>s0. arrives x m v h (maskIndex st) s0 \<and>
         (case ex of
            SlotRejected \<Rightarrow>
              maskIndex st < length m \<and>
              (\<exists>a. v (m ! maskIndex st) = Some a \<and>
                   \<not> fst (RegExp_test (objects s0 a) (ToString (get_index x (rawIndex s0))))) \<and>
              maskedValue st = maskedValue s0 \<and> rawIndex st = rawIndex s0
          | InputExhausted \<Rightarrow> maskIndex st < length m \<and> length x \<le> rawIndex st
          | MaskEnd \<Rightarrow> maskIndex st = length m \<and> st = s0)"
    using ap stop unfolding p(1) by blast
  have c4: "ex \<noteq> MaskEnd \<longrightarrow>
         (\<forall>m'. take (Suc (maskIndex st)) m' = take (Suc (maskIndex st)) m \<longrightarrow>
               applyMask x m' v h = applyMask x m v h)"
    using masks unfolding p(1) by blast
  have c5: "\<forall>x'. (\<forall>j \<le> rawIndex st. get_index x' j = get_index x j) \<longrightarrow>
            applyMask x' m v h = applyMask x m v h"
    using inputs by blast
  have bw: "\<exists>ex st. applyMask_run x m v h = Inr (ex, st) \<and> maskIndex st \<le> length m \<and>
      (\<forall>q < maskIndex st. \<exists>sq sq'.
          arrives x m v h q sq \<and>
          (\<forall>a. v (m ! q) = Some a \<longrightarrow>
               fst (RegExp_test (objects sq a) (ToString (get_index x (rawIndex sq))))) \<and>
          arrives x m v h (Suc q) sq' \<and> rawIndex sq' < length x) \<and>
      (\<exists>s0. arrives x m v h (maskIndex st) s0 \<and>
         (case ex of
            SlotRejected \<Rightarrow>
              maskIndex st < length m \<and>
              (\<exists>a. v (m ! maskIndex st) = Some a \<and>
                   \<not> fst (RegExp_test (objects s0 a) (ToString (get_index x (rawIndex s0))))) \<and>
              maskedValue st = maskedValue s0 \<and> rawIndex st = rawIndex s0
          | InputExhausted \<Rightarrow> maskIndex st < length m \<and> length x \<le> rawIndex st
          | MaskEnd \<Rightarrow> maskIndex st = length m \<and> st = s0)) \<and>
      (ex \<noteq> MaskEnd \<longrightarrow>
         (\<forall>m'. take (Suc (maskIndex st)) m' = take (Suc (maskIndex st)) m \<longrightarrow>
               applyMask x m' v h = applyMask x m v h)) \<and>
      (\<forall>x'. (\<forall>j \<le> rawIndex st. get_index x' j = get_index x j) \<longrightarrow>
            applyMask x' m v h = applyMask x m v h)"
    using r0 c1 c2 c3 c4 c5 by blast
  from f0 f1 f2 f3 bw show ?thesis by (intro conjI)
qed

theorem applyMask_stopping_point_witness:
  "applyMask ''a7'' ''9-'' [CHR ''9'' \<mapsto> 0] (heap_of re_digit) = Inr [] \<and>
   applyMask ''/1'' ''/9'' [CHR ''9'' \<mapsto> 0] (heap_of re_digit) = Inr ''/1'' \<and>
   applyMask ''123'' ''9'' [CHR ''9'' \<mapsto> 0] (heap_of re_digit) = Inr ''1'' \<and>
   take 2 ''0a7'' = take 2 ''0a'' \<and>
   applyMask ''0a7'' ''99/99/9999'' [CHR ''9'' \<mapsto> 0] (heap_of re_digit) =
     applyMask ''0a'' ''99/99/9999'' [CHR ''9'' \<mapsto> 0] (heap_of re_digit) \<and>
   take 2 ''99-'' = take 2 ''99/99/9999'' \<and>
   applyMask ''0a'' ''99-'' [CHR ''9'' \<mapsto> 0] (heap_of re_digit) =
     applyMask ''0a'' ''99/99/9999'' [CHR ''9'' \<mapsto> 0] (heap_of re_digit) \<and>
   (\<exists>sq sq'. arrives ''0a'' ''99/99/9999'' [CHR ''9'' \<mapsto> 0] (heap_of re_digit) 0 sq \<and>
      fst (RegExp_test (objects sq 0) (ToString (get_index ''0a'' (rawIndex sq)))) \<and>
      arrives ''0a'' ''99/99/9999'' [CHR ''9'' \<mapsto> 0] (heap_of re_digit) 1 sq' \<and>
      rawIndex sq' < length ''0a'')"
proof -
  let ?v = "[CHR ''9'' \<mapsto> (0::nat)]"
  let ?h = "heap_of re_digit"
  have ta: "\<not> fst (RegExp_test re_digit ''a'')" by code_simp
  have t1: "fst (RegExp_test re_digit ''1'')" by code_simp
  \<comment> \<open>a failing slot stops the run\<close>
  have w1: "applyMask ''a7'' ''9-'' ?v ?h = Inr []"
  proof -
    note T = applyMask_stopping_point [of "''a7''" "''9-''" ?v ?h]
    from T have f0: "arrives ''a7'' ''9-'' ?v ?h 0 (entry ?h)" by (elim conjE)
    from T have f1: "\<forall>p s a. p < length ''9-'' \<and> arrives ''a7'' ''9-'' ?v ?h p s \<and>
        ?v (''9-'' ! p) = Some a \<longrightarrow>
      (let T = ToString (get_index ''a7'' (rawIndex s));
           s' = s\<lparr>objects := (objects s)(a := snd (RegExp_test (objects s a) T))\<rparr>
       in if fst (RegExp_test (objects s a) T)
          then (let s1 = s'\<lparr>maskedValue := maskedValue s @ T, rawIndex := Suc (rawIndex s)\<rparr>
                in if length ''a7'' \<le> Suc (rawIndex s)
                   then applyMask_run ''a7'' ''9-'' ?v ?h = Inr (InputExhausted, s1)
                   else arrives ''a7'' ''9-'' ?v ?h (Suc p) (s1\<lparr>maskIndex := Suc p\<rparr>))
          else applyMask_run ''a7'' ''9-'' ?v ?h = Inr (SlotRejected, s'))"
      by (elim conjE)
    have "0 < length ''9-'' \<and> arrives ''a7'' ''9-'' ?v ?h 0 (entry ?h) \<and>
        ?v (''9-'' ! 0) = Some 0"
      using f0 by simp
    from f1[rule_format, OF this] ta
    have "applyMask_run ''a7'' ''9-'' ?v ?h =
        Inr (SlotRejected, (entry ?h)\<lparr>objects := (objects (entry ?h))
               (0 := snd (RegExp_test (objects (entry ?h) 0)
                      (ToString (get_index ''a7'' (rawIndex (entry ?h))))))\<rparr>)"
      by (simp add: Let_def entry_def heap_of_def get_index_def ToString_def)
    then show ?thesis by (simp add: applyMask_def entry_def)
  qed
  \<comment> \<open>a literal, then a passing slot, then the end of the raw input\<close>
  have w2: "applyMask ''/1'' ''/9'' ?v ?h = Inr ''/1''"
  proof -
    note T = applyMask_stopping_point [of "''/1''" "''/9''" ?v ?h]
    from T have f0: "arrives ''/1'' ''/9'' ?v ?h 0 (entry ?h)" by (elim conjE)
    from T have f1: "\<forall>p s a. p < length ''/9'' \<and> arrives ''/1'' ''/9'' ?v ?h p s \<and>
        ?v (''/9'' ! p) = Some a \<longrightarrow>
      (let T = ToString (get_index ''/1'' (rawIndex s));
           s' = s\<lparr>objects := (objects s)(a := snd (RegExp_test (objects s a) T))\<rparr>
       in if fst (RegExp_test (objects s a) T)
          then (let s1 = s'\<lparr>maskedValue := maskedValue s @ T, rawIndex := Suc (rawIndex s)\<rparr>
                in if length ''/1'' \<le> Suc (rawIndex s)
                   then applyMask_run ''/1'' ''/9'' ?v ?h = Inr (InputExhausted, s1)
                   else arrives ''/1'' ''/9'' ?v ?h (Suc p) (s1\<lparr>maskIndex := Suc p\<rparr>))
          else applyMask_run ''/1'' ''/9'' ?v ?h = Inr (SlotRejected, s'))"
      by (elim conjE)
    from T have f2: "\<forall>p s. p < length ''/9'' \<and> arrives ''/1'' ''/9'' ?v ?h p s \<and>
        ?v (''/9'' ! p) = None \<longrightarrow>
      (let r = (if get_index ''/1'' (rawIndex s) = Some (''/9'' ! p)
                then Suc (rawIndex s) else rawIndex s);
           s1 = s\<lparr>maskedValue := maskedValue s @ [''/9'' ! p], rawIndex := r\<rparr>
       in if length ''/1'' \<le> r
          then applyMask_run ''/1'' ''/9'' ?v ?h = Inr (InputExhausted, s1)
          else arrives ''/1'' ''/9'' ?v ?h (Suc p) (s1\<lparr>maskIndex := Suc p\<rparr>))"
      by (elim conjE)
    let ?s1 = "\<lparr>maskedValue = ''/'', rawIndex = Suc 0, maskIndex = Suc 0, objects = ?h\<rparr>"
    have "0 < length ''/9'' \<and> arrives ''/1'' ''/9'' ?v ?h 0 (entry ?h) \<and>
        ?v (''/9'' ! 0) = None"
      using f0 by simp
    from f2[rule_format, OF this]
    have a1: "arrives ''/1'' ''/9'' ?v ?h (Suc 0) ?s1"
      by (simp add: Let_def entry_def get_index_def)
    have "Suc 0 < length ''/9'' \<and> arrives ''/1'' ''/9'' ?v ?h (Suc 0) ?s1 \<and>
        ?v (''/9'' ! Suc 0) = Some 0"
      using a1 by simp
    from f1[rule_format, OF this] t1
    have "\<exists>s. applyMask_run ''/1'' ''/9'' ?v ?h = Inr (InputExhausted, s) \<and>
              maskedValue s = ''/1''"
      by (simp add: Let_def heap_of_def get_index_def ToString_def)
    then show ?thesis by (auto simp: applyMask_def)
  qed
  \<comment> \<open>a passing slot, then the end of the mask\<close>
  have w3: "applyMask ''123'' ''9'' ?v ?h = Inr ''1''"
  proof -
    note T = applyMask_stopping_point [of "''123''" "''9''" ?v ?h]
    from T have f0: "arrives ''123'' ''9'' ?v ?h 0 (entry ?h)" by (elim conjE)
    from T have f1: "\<forall>p s a. p < length ''9'' \<and> arrives ''123'' ''9'' ?v ?h p s \<and>
        ?v (''9'' ! p) = Some a \<longrightarrow>
      (let T = ToString (get_index ''123'' (rawIndex s));
           s' = s\<lparr>objects := (objects s)(a := snd (RegExp_test (objects s a) T))\<rparr>
       in if fst (RegExp_test (objects s a) T)
          then (let s1 = s'\<lparr>maskedValue := maskedValue s @ T, rawIndex := Suc (rawIndex s)\<rparr>
                in if length ''123'' \<le> Suc (rawIndex s)
                   then applyMask_run ''123'' ''9'' ?v ?h = Inr (InputExhausted, s1)
                   else arrives ''123'' ''9'' ?v ?h (Suc p) (s1\<lparr>maskIndex := Suc p\<rparr>))
          else applyMask_run ''123'' ''9'' ?v ?h = Inr (SlotRejected, s'))"
      by (elim conjE)
    from T have f3: "\<forall>s. arrives ''123'' ''9'' ?v ?h (length ''9'') s \<longrightarrow>
        applyMask_run ''123'' ''9'' ?v ?h = Inr (MaskEnd, s)"
      by (elim conjE)
    have "0 < length ''9'' \<and> arrives ''123'' ''9'' ?v ?h 0 (entry ?h) \<and>
        ?v (''9'' ! 0) = Some 0"
      using f0 by simp
    from f1[rule_format, OF this] t1
    have "arrives ''123'' ''9'' ?v ?h (length ''9'')
        \<lparr>maskedValue = ''1'', rawIndex = Suc 0, maskIndex = Suc 0,
         objects = ?h(0 := snd (RegExp_test re_digit ''1''))\<rparr>"
      by (simp add: Let_def entry_def heap_of_def get_index_def ToString_def)
    from f3[rule_format, OF this] show ?thesis by (simp add: applyMask_def)
  qed
  \<comment> \<open>the earlier positions, the rest of the mask and the rest of the raw input\<close>
  from applyMask_stopping_point [of "''0a''" "''99/99/9999''" ?v ?h]
  obtain ex st where
    run: "applyMask_run ''0a'' ''99/99/9999'' ?v ?h = Inr (ex, st)"
    and earlier: "\<forall>q < maskIndex st. \<exists>sq sq'.
          arrives ''0a'' ''99/99/9999'' ?v ?h q sq \<and>
          (\<forall>a. ?v (''99/99/9999'' ! q) = Some a \<longrightarrow>
               fst (RegExp_test (objects sq a) (ToString (get_index ''0a'' (rawIndex sq))))) \<and>
          arrives ''0a'' ''99/99/9999'' ?v ?h (Suc q) sq' \<and> rawIndex sq' < length ''0a''"
    and masks: "ex \<noteq> MaskEnd \<longrightarrow>
        (\<forall>m'. take (Suc (maskIndex st)) m' = take (Suc (maskIndex st)) ''99/99/9999'' \<longrightarrow>
              applyMask ''0a'' m' ?v ?h = applyMask ''0a'' ''99/99/9999'' ?v ?h)"
    and inputs: "\<forall>x'. (\<forall>j \<le> rawIndex st. get_index x' j = get_index ''0a'' j) \<longrightarrow>
           applyMask x' ''99/99/9999'' ?v ?h = applyMask ''0a'' ''99/99/9999'' ?v ?h"
    by (elim exE conjE) (rule that)
  have "map_sum id (\<lambda>(e, s). (e, rawIndex s, maskIndex s))
          (applyMask_run ''0a'' ''99/99/9999'' ?v ?h) = Inr (SlotRejected, 1, 1)"
    by code_simp
  then have st: "ex = SlotRejected" "rawIndex st = Suc 0" "maskIndex st = Suc 0"
    unfolding run by simp_all
  have a: "\<forall>j \<le> rawIndex st. get_index ''0a7'' j = get_index ''0a'' j"
    unfolding st(2) by (simp add: get_index_def le_Suc_eq)
  have t2: "take 2 ''0a7'' = take 2 ''0a''" "take 2 ''99-'' = take 2 ''99/99/9999''"
    by (simp_all add: numeral_2_eq_2)
  have w4: "applyMask ''0a7'' ''99/99/9999'' ?v ?h = applyMask ''0a'' ''99/99/9999'' ?v ?h"
    using inputs[rule_format, OF a[rule_format]] .
  have "take (Suc (maskIndex st)) ''99-'' = take (Suc (maskIndex st)) ''99/99/9999''"
    unfolding st(3) by simp
  moreover have "ex \<noteq> MaskEnd" unfolding st(1) by simp
  ultimately have w5: "applyMask ''0a'' ''99-'' ?v ?h = applyMask ''0a'' ''99/99/9999'' ?v ?h"
    using masks[rule_format, of "''99-''"] by blast
  have "0 < maskIndex st" unfolding st(3) by simp
  from earlier[rule_format, OF this] obtain sq sq' where
    e: "arrives ''0a'' ''99/99/9999'' ?v ?h 0 sq"
       "\<forall>a. ?v (''99/99/9999'' ! 0) = Some a \<longrightarrow>
               fst (RegExp_test (objects sq a) (ToString (get_index ''0a'' (rawIndex sq))))"
       "arrives ''0a'' ''99/99/9999'' ?v ?h (Suc 0) sq'" "rawIndex sq' < length ''0a''"
    by (elim exE conjE) (rule that)
  from e(2) have "fst (RegExp_test (objects sq 0) (ToString (get_index ''0a'' (rawIndex sq))))"
    by simp
  with e(1,3,4) have w6: "\<exists>sq sq'. arrives ''0a'' ''99/99/9999'' ?v ?h 0 sq \<and>
      fst (RegExp_test (objects sq 0) (ToString (get_index ''0a'' (rawIndex sq)))) \<and>
      arrives ''0a'' ''99/99/9999'' ?v ?h 1 sq' \<and> rawIndex sq' < length ''0a''"
    unfolding One_nat_def by blast
  from w1 w2 w3 t2 w4 w5 w6 show ?thesis by (intro conjI)
qed

section \<open>Totality\<close>

text \<open>
  C8. \<^verbatim>\<open>applyMask\<close> returns a string on every raw input, mask and validation
  mapping: no call ends in an error, whatever the lengths of the input and the mask and
  whichever mask characters have entries. At a mask character with no entry the loop body
  does not throw either: it appends that character to the output, as for a literal.
\<close>

theorem applyMask_total:
  "(\<exists>out. applyMask x m v h = Inr out) \<and>
   (v c = None \<longrightarrow>
      (\<exists>b st'. body x v c st = Inr (b, st') \<and> maskedValue st' = maskedValue st @ [c]))"
proof
  obtain ex st' where "applyMask_run x m v h = Inr (ex, st')"
    unfolding applyMask_run_def using loop_Inr by blast
  then show "\<exists>out. applyMask x m v h = Inr out"
    by (simp add: applyMask_def)
next
  show "v c = None \<longrightarrow>
      (\<exists>b st'. body x v c st = Inr (b, st') \<and> maskedValue st' = maskedValue st @ [c])"
    by (simp add: body_literal)
qed

theorem applyMask_total_witness:
  "(\<exists>out. applyMask ''12345'' ''9-9'' [CHR ''9'' \<mapsto> 0] (heap_of re_digit) = Inr out) \<and>
   [CHR ''9'' \<mapsto> (0::nat)] CHR ''-'' = None \<and>
   (\<exists>b st'. body ''12345'' [CHR ''9'' \<mapsto> 0] CHR ''-''
               \<lparr>maskedValue = ''1'', rawIndex = 1, maskIndex = 1,
                objects = heap_of re_digit\<rparr> = Inr (b, st') \<and>
            maskedValue st' = ''1-'')"
  using applyMask_total [of "''12345''" "''9-9''" "[CHR ''9'' \<mapsto> 0]" "heap_of re_digit"
      "CHR ''-''"
      "\<lparr>maskedValue = ''1'', rawIndex = 1, maskIndex = 1, objects = heap_of re_digit\<rparr>"]
  by simp

section \<open>The empty raw input\<close>

text \<open>
  C10. For every validation mapping and every mask whose first character has no entry in
  the mapping, \<^verbatim>\<open>applyMask\<close> on the empty raw input returns the one-character
  string made of the mask's first character: the end-of-input check runs only after a
  mask position has been processed.
\<close>

theorem empty_input_emits_first_literal:
  "v c = None \<Longrightarrow> applyMask [] (c # rest) v h = Inr [c]"
  by (simp add: applyMask_def applyMask_run_def entry_def body_literal get_index_def)

theorem empty_input_emits_first_literal_witness:
  "[CHR ''_'' \<mapsto> (0::nat)] CHR ''('' = None \<and>
   applyMask [] ''(__) ____-____'' [CHR ''_'' \<mapsto> 0] (heap_of re_digit) = Inr ''(''"
  using empty_input_emits_first_literal
    [of "[CHR ''_'' \<mapsto> 0]" "CHR ''(''" "''__) ____-____''" "heap_of re_digit"]
  by simp

text \<open>
  C2, as the spec states it: \<^verbatim>\<open>applyMask("", m, v)\<close> is the empty string for
  every mask and mapping, as for the mask \<^verbatim>\<open>"(__) ____-____"\<close> with digits in
  the slots. On that very mask the code returns \<^verbatim>\<open>"("\<close>.
\<close>

theorem applyMask_empty_input_counterexample:
  "applyMask [] ''(__) ____-____'' [CHR ''_'' \<mapsto> 0] (heap_of re_digit) \<noteq> Inr []"
  by code_simp

text \<open>
  C2, amended. On the empty raw input \<^verbatim>\<open>applyMask\<close> returns the empty string
  when the mask is empty, and when the mask's first character is a slot whose rule fails
  the test on the missing input character (the test is run on the text
  \<^verbatim>\<open>"undefined"\<close>, which \<^verbatim>\<open>/\d/\<close> rejects); when the mask's first
  character has no entry in the mapping it returns that one character.
\<close>

theorem applyMask_empty_input:
  "applyMask [] [] v h = Inr [] \<and>
   (v c = Some a \<and> \<not> fst (RegExp_test (h a) ''undefined'') \<longrightarrow>
      applyMask [] (c # rest) v h = Inr []) \<and>
   (v c = None \<longrightarrow> applyMask [] (c # rest) v h = Inr [c])"
proof (intro conjI impI)
  show "applyMask [] [] v h = Inr []"
    by (simp add: applyMask_def applyMask_run_def entry_def)
next
  assume a: "v c = Some a \<and> \<not> fst (RegExp_test (h a) ''undefined'')"
  then show "applyMask [] (c # rest) v h = Inr []"
    by (simp add: applyMask_def applyMask_run_def entry_def
          body_slot[where v=v and c=c and a=a] get_index_def ToString_def Let_def)
next
  assume "v c = None"
  then show "applyMask [] (c # rest) v h = Inr [c]"
    by (simp add: applyMask_def applyMask_run_def entry_def body_literal get_index_def)
qed

theorem applyMask_empty_input_witness:
  "[CHR ''9'' \<mapsto> (0::nat)] CHR ''9'' = Some 0 \<and>
   \<not> fst (RegExp_test (heap_of re_digit 0) ''undefined'') \<and>
   applyMask [] ''99/99/9999'' [CHR ''9'' \<mapsto> 0] (heap_of re_digit) = Inr [] \<and>
   [CHR ''_'' \<mapsto> (0::nat)] CHR ''('' = None \<and>
   applyMask [] ''(__) ____-____'' [CHR ''_'' \<mapsto> 0] (heap_of re_digit) = Inr ''(''"
proof -
  have r: "\<not> fst (RegExp_test (heap_of re_digit 0) ''undefined'')"
    by code_simp
  have k1: "[CHR ''9'' \<mapsto> (0::nat)] CHR ''9'' = Some 0" by simp
  have k2: "[CHR ''_'' \<mapsto> (0::nat)] CHR ''('' = None" by simp
  from applyMask_empty_input
    [where v = "[CHR ''9'' \<mapsto> 0]" and c = "CHR ''9''" and a = 0 and h = "heap_of re_digit"
       and rest = "''9/99/9999''"] k1 r
  have w1: "applyMask [] ''99/99/9999'' [CHR ''9'' \<mapsto> 0] (heap_of re_digit) = Inr []"
    by blast
  from applyMask_empty_input
    [where v = "[CHR ''_'' \<mapsto> 0]" and c = "CHR ''(''" and h = "heap_of re_digit"
       and rest = "''__) ____-____''"] k2
  have w2: "applyMask [] ''(__) ____-____'' [CHR ''_'' \<mapsto> 0] (heap_of re_digit) = Inr ''(''"
    by blast
  from k1 r w1 k2 w2 show ?thesis by (intro conjI)
qed

section \<open>Literal positions\<close>

text \<open>
  C4. Whenever the loop body runs at a mask character with no entry in the validation
  mapping, whatever the raw input and the locals, that character is appended to the output
  and the raw cursor advances by exactly one if the raw character at the cursor equals the
  mask character, and stays where it is otherwise. So a pasted value that is already
  formatted has its separators consumed: \<^verbatim>\<open>"01/01/2024"\<close> under
  \<^verbatim>\<open>"99/99/9999"\<close> with digits in the slots comes out unchanged.
\<close>

theorem applyMask_literal_step:
  "(v c = None \<longrightarrow>
      (\<exists>b st'. body x v c st = Inr (b, st') \<and>
         maskedValue st' = maskedValue st @ [c] \<and>
         rawIndex st' =
           (if get_index x (rawIndex st) = Some c then Suc (rawIndex st) else rawIndex st))) \<and>
   applyMask ''01/01/2024'' ''99/99/9999'' [CHR ''9'' \<mapsto> 0] (heap_of re_digit) =
     Inr ''01/01/2024''"
proof
  show "v c = None \<longrightarrow>
      (\<exists>b st'. body x v c st = Inr (b, st') \<and>
         maskedValue st' = maskedValue st @ [c] \<and>
         rawIndex st' =
           (if get_index x (rawIndex st) = Some c then Suc (rawIndex st) else rawIndex st))"
    by (simp add: body_literal)
next
  show "applyMask ''01/01/2024'' ''99/99/9999'' [CHR ''9'' \<mapsto> 0] (heap_of re_digit) =
     Inr ''01/01/2024''"
    by code_simp
qed

theorem applyMask_literal_step_witness:
  "[CHR ''9'' \<mapsto> (0::nat)] CHR ''/'' = None \<and>
   get_index ''01/01/2024'' 2 = Some CHR ''/'' \<and>
   (\<exists>b st'. body ''01/01/2024'' [CHR ''9'' \<mapsto> 0] CHR ''/''
               \<lparr>maskedValue = ''01'', rawIndex = 2, maskIndex = 2,
                objects = heap_of re_digit\<rparr> = Inr (b, st') \<and>
            maskedValue st' = ''01/'' \<and> rawIndex st' = 3) \<and>
   get_index ''01012024'' 2 \<noteq> Some CHR ''/'' \<and>
   (\<exists>b st'. body ''01012024'' [CHR ''9'' \<mapsto> 0] CHR ''/''
               \<lparr>maskedValue = ''01'', rawIndex = 2, maskIndex = 2,
                objects = heap_of re_digit\<rparr> = Inr (b, st') \<and>
            maskedValue st' = ''01/'' \<and> rawIndex st' = 2)"
proof -
  let ?v = "[CHR ''9'' \<mapsto> (0::nat)]"
  let ?st = "\<lparr>maskedValue = ''01'', rawIndex = 2, maskIndex = 2,
                objects = heap_of re_digit\<rparr>"
  have k: "?v CHR ''/'' = None" by simp
  have g1: "get_index ''01/01/2024'' 2 = Some CHR ''/''"
    by (simp add: get_index_def numeral_2_eq_2)
  have g2: "get_index ''01012024'' 2 \<noteq> Some CHR ''/''"
    by (simp add: get_index_def numeral_2_eq_2)
  from applyMask_literal_step [of ?v "CHR ''/''" "''01/01/2024''" ?st] k g1
  have w1: "\<exists>b st'. body ''01/01/2024'' ?v CHR ''/'' ?st = Inr (b, st') \<and>
            maskedValue st' = ''01/'' \<and> rawIndex st' = 3"
    by (simp add: numeral_3_eq_3 numeral_2_eq_2)
  from applyMask_literal_step [of ?v "CHR ''/''" "''01012024''" ?st] k g2
  have w2: "\<exists>b st'. body ''01012024'' ?v CHR ''/'' ?st = Inr (b, st') \<and>
            maskedValue st' = ''01/'' \<and> rawIndex st' = 2"
    by simp
  from k g1 w1 g2 w2 show ?thesis by (intro conjI)
qed

subsection \<open>Masks without slots\<close>

text \<open>
  A run over mask characters that have no entry renders them one by one, the raw cursor
  moving on at each literal that equals the raw character at the cursor, until the raw
  input is used up: it renders the shortest prefix of the mask that has the rest of the
  raw input as a subsequence (its characters in order, not necessarily adjacent), and the
  whole mask when no shorter prefix has.
\<close>

lemma loop_literal_subseq:
  assumes "rawIndex st < length x" and "\<forall>c \<in> set m. v c = None"
    and "loop x v m st = Inr (ex, st')"
  shows "\<exists>k \<le> length m. maskedValue st' = maskedValue st @ take k m \<and>
           (\<forall>j < k. \<not> subseq (drop (rawIndex st) x) (take j m)) \<and>
           (k < length m \<longrightarrow> subseq (drop (rawIndex st) x) (take k m))"
  using assms
proof (induction m arbitrary: st)
  case Nil
  then show ?case by simp
next
  case (Cons c rest)
  from Cons.prems(2) have c: "v c = None" by simp
  let ?a = "x ! rawIndex st"
  have d: "drop (rawIndex st) x = ?a # drop (Suc (rawIndex st)) x"
    using Cons.prems(1) by (simp add: Cons_nth_drop_Suc)
  have g: "get_index x (rawIndex st) = Some ?a"
    using Cons.prems(1) by (simp add: get_index_def)
  let ?r = "if ?a = c then Suc (rawIndex st) else rawIndex st"
  let ?s1 = "st\<lparr>maskedValue := maskedValue st @ [c], rawIndex := ?r\<rparr>"
  have b: "body x v c st = Inr (if length x \<le> ?r then Some InputExhausted else None, ?s1)"
    using g by (simp add: body_literal[where v=v and c=c, OF c])
  show ?case
  proof (cases "length x \<le> ?r")
    case True
    with Cons.prems(1) have ac: "?a = c" and e: "drop (Suc (rawIndex st)) x = []"
      by (auto split: if_splits)
    from True b Cons.prems(3) have "st' = ?s1" by simp
    then have "maskedValue st' = maskedValue st @ take 1 (c # rest)" by simp
    moreover have "\<forall>j < 1. \<not> subseq (drop (rawIndex st) x) (take j (c # rest))"
      using d by simp
    moreover have "subseq (drop (rawIndex st) x) (take 1 (c # rest))"
      using d ac e by simp
    ultimately show ?thesis
      by (intro exI[of _ 1]) simp
  next
    case False
    let ?s2 = "?s1\<lparr>maskIndex := Suc (maskIndex ?s1)\<rparr>"
    from False b Cons.prems(3) have run: "loop x v rest ?s2 = Inr (ex, st')" by simp
    have r: "rawIndex ?s2 < length x" using False by simp
    have l: "\<forall>c \<in> set rest. v c = None" using Cons.prems(2) by simp
    from Cons.IH[OF r l run] obtain k where
      k: "k \<le> length rest" "maskedValue st' = maskedValue ?s2 @ take k rest"
         "\<forall>j < k. \<not> subseq (drop ?r x) (take j rest)"
         "k < length rest \<longrightarrow> subseq (drop ?r x) (take k rest)"
      by auto
    have step: "subseq (drop (rawIndex st) x) (c # ys) = subseq (drop ?r x) ys" for ys
    proof -
      have "subseq (drop (rawIndex st) x) (c # ys) =
              subseq (?a # drop (Suc (rawIndex st)) x) (c # ys)"
        by (subst d) (rule refl)
      also have "\<dots> = (if ?a = c then subseq (drop (Suc (rawIndex st)) x) ys
                        else subseq (?a # drop (Suc (rawIndex st)) x) ys)"
        by (rule subseq_Cons2_iff)
      also have "\<dots> = subseq (drop ?r x) ys"
        by (simp add: d[symmetric])
      finally show ?thesis .
    qed
    have "maskedValue st' = maskedValue st @ take (Suc k) (c # rest)" using k(2) by simp
    moreover have "\<forall>j < Suc k. \<not> subseq (drop (rawIndex st) x) (take j (c # rest))"
    proof (intro allI impI)
      fix j assume j: "j < Suc k"
      show "\<not> subseq (drop (rawIndex st) x) (take j (c # rest))"
      proof (cases j)
        case 0
        with d show ?thesis by simp
      next
        case (Suc i)
        with j k(3) step show ?thesis by simp
      qed
    qed
    moreover have "Suc k < length (c # rest) \<longrightarrow>
                     subseq (drop (rawIndex st) x) (take (Suc k) (c # rest))"
      using k(4) step by simp
    ultimately show ?thesis using k(1)
      by (intro exI[of _ "Suc k"]) simp
  qed
qed

text \<open>
  C6, as the spec states it: for a mask with no slot markers and a non-empty raw input the
  whole mask is rendered. The raw input \<^verbatim>\<open>"a"\<close> under the mask
  \<^verbatim>\<open>"ab"\<close> gives \<^verbatim>\<open>"a"\<close>: the literal \<^verbatim>\<open>a\<close> consumes the only
  raw character and the end-of-input check stops the loop.
\<close>

theorem applyMask_literal_mask_counterexample:
  "applyMask ''a'' ''ab'' Map.empty (heap_of re_digit) \<noteq> Inr ''ab''"
  by code_simp

text \<open>
  C6, amended. For every non-empty raw input \<open>x\<close> and every mask \<open>m\<close> none of
  whose characters has an entry in the mapping (every mask, when the mapping is empty),
  the output is the shortest prefix of \<open>m\<close> that has \<open>x\<close> as a subsequence, and
  \<open>m\<close> itself when no shorter prefix has. So the output is the whole of \<open>m\<close>
  exactly when \<open>x\<close> is not a subsequence of \<open>m\<close> without its last character.
\<close>

theorem applyMask_literal_mask:
  assumes "x \<noteq> []" and "\<forall>c \<in> set m. v c = None"
  shows "(\<exists>k \<le> length m. applyMask x m v h = Inr (take k m) \<and>
            (\<forall>j < k. \<not> subseq x (take j m)) \<and>
            (k < length m \<longrightarrow> subseq x (take k m))) \<and>
         (applyMask x m v h = Inr m \<longleftrightarrow> \<not> subseq x (butlast m))"
proof -
  obtain ex st where run: "loop x v m (entry h) = Inr (ex, st)"
    using loop_Inr by blast
  have r: "rawIndex (entry h) < length x" using assms(1) by (simp add: entry_def)
  from loop_literal_subseq[OF r assms(2) run] obtain k where
    k: "k \<le> length m" "maskedValue st = take k m"
       "\<forall>j < k. \<not> subseq x (take j m)" "k < length m \<longrightarrow> subseq x (take k m)"
    by (auto simp: entry_def)
  have out: "applyMask x m v h = Inr (take k m)"
    using run k(2) by (simp add: applyMask_def applyMask_run_def)
  have p1: "\<exists>k \<le> length m. applyMask x m v h = Inr (take k m) \<and>
            (\<forall>j < k. \<not> subseq x (take j m)) \<and>
            (k < length m \<longrightarrow> subseq x (take k m))"
    using k(1,3,4) out by blast
  have p2: "applyMask x m v h = Inr m \<longleftrightarrow> \<not> subseq x (butlast m)"
  proof
    assume "applyMask x m v h = Inr m"
    with out have "take k m = m" by simp
    then have "length (take k m) = length m" by simp
    with k(1) have kl: "k = length m" by simp
    show "\<not> subseq x (butlast m)"
    proof (cases "m = []")
      case True
      with assms(1) show ?thesis by simp
    next
      case False
      then have "length m - 1 < k" using kl by (cases m) simp_all
      with k(3) have "\<not> subseq x (take (length m - 1) m)" by blast
      then show ?thesis by (simp add: butlast_conv_take)
    qed
  next
    assume n: "\<not> subseq x (butlast m)"
    have "k = length m"
    proof (rule ccontr)
      assume "k \<noteq> length m"
      with k(1) have kl: "k < length m" by simp
      with k(4) have s: "subseq x (take k m)" by blast
      from kl have "k \<le> length m - 1" by simp
      then have "take k (butlast m) = take k m"
        by (simp add: butlast_conv_take min_absorb1)
      then have "butlast m = take k m @ drop k (butlast m)"
        using append_take_drop_id[of k "butlast m"] by simp
      with subseq_rev_drop_many[OF s, of "drop k (butlast m)"] n show False by simp
    qed
    with out show "applyMask x m v h = Inr m" by simp
  qed
  from p1 p2 show ?thesis by blast
qed

theorem applyMask_literal_mask_witness:
  "''ax'' \<noteq> [] \<and> (Map.empty :: replacement) CHR ''a'' = None \<and>
   (Map.empty :: replacement) CHR ''-'' = None \<and> (Map.empty :: replacement) CHR ''b'' = None \<and>
   \<not> subseq ''ax'' (butlast ''a-b'') \<and>
   applyMask ''ax'' ''a-b'' Map.empty (heap_of re_digit) = Inr ''a-b'' \<and>
   subseq ''a-'' (butlast ''a-b'') \<and>
   applyMask ''a-'' ''a-b'' Map.empty (heap_of re_digit) \<noteq> Inr ''a-b''"
proof -
  have h1: "''ax'' \<noteq> []" "''a-'' \<noteq> []" by simp_all
  have h2: "\<forall>c \<in> set ''a-b''. (Map.empty :: replacement) c = None" by simp
  have h3: "\<not> subseq ''ax'' (butlast ''a-b'')" by simp
  have h4: "subseq ''a-'' (butlast ''a-b'')" by simp
  from applyMask_literal_mask[OF h1(1) h2, of "heap_of re_digit"] h3
  have w1: "applyMask ''ax'' ''a-b'' Map.empty (heap_of re_digit) = Inr ''a-b''" by blast
  from applyMask_literal_mask[OF h1(2) h2, of "heap_of re_digit"] h4
  have w2: "applyMask ''a-'' ''a-b'' Map.empty (heap_of re_digit) \<noteq> Inr ''a-b''" by blast
  from h1(1) h3 w1 h4 w2 show ?thesis by simp
qed

section \<open>The strict check of the input handler\<close>

text \<open>The empty pattern matches at index 0 of every subject.\<close>

lemma test_empty_pattern: "fst (RegExp_test (fresh_g empty_pattern) S)"
proof -
  have e: "[0 ..< Suc (length S)] = 0 # [Suc 0 ..< Suc (length S)]"
    by (rule upt_conv_Cons) simp
  show ?thesis
    by (simp add: RegExp_test_def fresh_g_def empty_pattern_def Let_def e del: upt_Suc)
qed

text \<open>
  The check, position by position, when the source of every rule compiles under the flag
  \<^verbatim>\<open>g\<close> alone: it finds the first position that has an input character and a
  rule whose fresh copy rejects that character.
\<close>

lemma some_from_iff:
  assumes "\<forall>c a. v c = Some a \<longrightarrow> bare (h a) \<noteq> None"
  shows "some_from ms i inp v h =
     Inr (\<exists>k. k < length ms \<and> i + k < length inp \<and>
              (\<exists>a mt. v (ms ! k) = Some a \<and> bare (h a) = Some mt \<and>
                      \<not> fst (RegExp_test (fresh_g mt) [inp ! (i + k)])))"
proof (induction ms arbitrary: i)
  case Nil
  show ?case by simp
next
  case (Cons c rest)
  let ?P = "\<lambda>ms i k. k < length ms \<and> i + k < length inp \<and>
              (\<exists>a mt. v (ms ! k) = Some a \<and> bare (h a) = Some mt \<and>
                      \<not> fst (RegExp_test (fresh_g mt) [inp ! (i + k)]))"
  have shift: "(\<exists>k. ?P (c # rest) i k) \<longleftrightarrow> ?P (c # rest) i 0 \<or> (\<exists>k. ?P rest (Suc i) k)"
  proof
    assume "\<exists>k. ?P (c # rest) i k"
    then obtain k where k: "?P (c # rest) i k" ..
    show "?P (c # rest) i 0 \<or> (\<exists>k. ?P rest (Suc i) k)"
    proof (cases k)
      case 0
      with k show ?thesis by simp
    next
      case (Suc j)
      with k have "?P rest (Suc i) j" by simp
      then show ?thesis by blast
    qed
  next
    assume "?P (c # rest) i 0 \<or> (\<exists>k. ?P rest (Suc i) k)"
    then show "\<exists>k. ?P (c # rest) i k"
    proof
      assume "?P (c # rest) i 0"
      then show ?thesis by blast
    next
      assume "\<exists>k. ?P rest (Suc i) k"
      then obtain j where "?P rest (Suc i) j" ..
      then have "?P (c # rest) i (Suc j)" by simp
      then show ?thesis by blast
    qed
  qed
  show ?case
  proof (cases "i < length inp")
    case False
    then have "\<not> ?P (c # rest) i 0" and "\<And>k. \<not> ?P rest (Suc i) k" by simp_all
    with False shift show ?thesis
      by (simp add: Cons.IH get_index_def)
  next
    case True
    show ?thesis
    proof (cases "v c")
      case None
      with True test_empty_pattern[of "[inp ! i]"] shift show ?thesis
        by (simp add: Cons.IH get_index_def new_RegExp_g_def)
    next
      case (Some a)
      with assms obtain mt where mt: "bare (h a) = Some mt" by auto
      with Some True shift show ?thesis
        by (simp add: Cons.IH get_index_def new_RegExp_g_def)
    qed
  qed
qed

lemma forbidden_iff:
  assumes "\<forall>c a. v c = Some a \<longrightarrow> bare (h a) \<noteq> None"
  shows "forbidden m inp v h =
     Inr (\<exists>k. k < length m \<and> k < length inp \<and>
              (\<exists>a mt. v (m ! k) = Some a \<and> bare (h a) = Some mt \<and>
                      \<not> fst (RegExp_test (fresh_g mt) [inp ! k])))"
  using some_from_iff[OF assms, of m 0 inp] by (simp add: forbidden_def)

text \<open>
  The fresh copy gives the verdict of the rule itself when the rule is not sticky, rests
  at \<open>lastIndex\<close> 0 and carries no modifier flag.
\<close>

lemma fresh_copy_test:
  assumes "\<not> sticky R" and "global R \<longrightarrow> lastIndex R = 0" and "bare R = Some (matcher R)"
  shows "fst (RegExp_test (fresh_g (matcher R)) S) = fst (RegExp_test R S)"
  using assms
  by (auto simp: RegExp_test_def fresh_g_def Let_def split: option.splits)

text \<open>
  A rule whose source does not compile under \<^verbatim>\<open>g\<close> alone makes the check throw
  at the first position that has an input character and that rule.
\<close>

lemma forbidden_SyntaxError:
  assumes "v c = Some a" and "bare (h a) = None" and "inp \<noteq> []"
  shows "forbidden (c # rest) inp v h = Inl SyntaxError"
  using assms by (cases inp) (simp_all add: forbidden_def get_index_def new_RegExp_g_def)

text \<open>What the handler does with the verdict of the check, in strict mode.\<close>

lemma oninput_rejects:
  assumes "forbidden m (input_value c) v h = Inr True"
  shows "oninput False m v h cb c = Inr (c\<lparr>input_value := this_value c\<rparr>, h)"
  using assms by (simp add: oninput_def)

lemma oninput_accepts:
  assumes "forbidden m (input_value c) v h = Inr False"
  shows "\<exists>ex st. applyMask_run (input_value c) m v h = Inr (ex, st) \<and>
           oninput False m v h cb c =
             Inr (c\<lparr>this_value := (case cb of None \<Rightarrow> maskedValue st
                                     | Some f \<Rightarrow> f (input_value c) (maskedValue st)),
                    bound := (case cb of None \<Rightarrow> maskedValue st
                                | Some f \<Rightarrow> f (input_value c) (maskedValue st))\<rparr>,
                  objects st)"
proof -
  obtain ex st where run: "applyMask_run (input_value c) m v h = Inr (ex, st)"
    unfolding applyMask_run_def using loop_Inr by blast
  then show ?thesis
    using assms by (cases cb) (simp_all add: oninput_def Let_def)
qed

lemma oninput_throws:
  assumes "forbidden m (input_value c) v h = Inl e"
  shows "oninput False m v h cb c = Inl e"
  using assms by (simp add: oninput_def)

text \<open>
  C9. The spec has the strict check reject a new raw value exactly when, at some position
  with an input character, the mask character has a rule and the input character fails
  that rule. The code breaks it for a rule that carries a modifier flag: the handler tests
  \<^verbatim>\<open>new RegExp(rule, "g")\<close>, which keeps the rule's pattern and drops its flags.
  With the rule \<^verbatim>\<open>/[a-z]/i\<close> for the mask \<^verbatim>\<open>"a"\<close> the raw value
  \<^verbatim>\<open>"A"\<close> passes the rule at the only position, and \<^verbatim>\<open>applyMask\<close>
  accepts it, yet the handler rejects it and puts the previous masked value back.
\<close>

theorem oninput_strict_gate_drops_flags:
  "forbidden ''a'' ''A'' [CHR ''a'' \<mapsto> 0] (heap_of re_lower_i) = Inr True \<and>
   fst (RegExp_test (heap_of re_lower_i 0) [''A'' ! 0]) \<and>
   applyMask ''A'' ''a'' [CHR ''a'' \<mapsto> 0] (heap_of re_lower_i) = Inr ''A'' \<and>
   map_sum id fst
     (oninput False ''a'' [CHR ''a'' \<mapsto> 0] (heap_of re_lower_i) None
        \<lparr>this_value = [], input_value = ''A'', bound = []\<rparr>) =
     Inr \<lparr>this_value = [], input_value = [], bound = []\<rparr>"
proof (intro conjI)
  show "forbidden ''a'' ''A'' [CHR ''a'' \<mapsto> 0] (heap_of re_lower_i) = Inr True"
    by code_simp
  show "fst (RegExp_test (heap_of re_lower_i 0) [''A'' ! 0])"
    by code_simp
  show "applyMask ''A'' ''a'' [CHR ''a'' \<mapsto> 0] (heap_of re_lower_i) = Inr ''A''"
    by code_simp
  show "map_sum id fst
     (oninput False ''a'' [CHR ''a'' \<mapsto> 0] (heap_of re_lower_i) None
        \<lparr>this_value = [], input_value = ''A'', bound = []\<rparr>) =
     Inr \<lparr>this_value = [], input_value = [], bound = []\<rparr>"
    by code_simp
qed

section \<open>The length of the output\<close>

text \<open>
  While the raw cursor is inside the raw input, each mask position appends at most one
  character, and a position with no entry appends its own mask character.
\<close>

lemma body_inside:
  assumes "rawIndex st < length x" and "body x v c st = Inr (b, st')"
  shows "\<exists>u. maskedValue st' = maskedValue st @ u \<and> length u \<le> 1 \<and>
           (b = None \<longrightarrow> length u = 1) \<and>
           (v c = None \<longrightarrow> u = [c])"
  using assms unfolding body_def check_end_def
  by (auto simp: Let_def get_index_def ToString_def
           split: option.splits prod.splits bool.splits if_splits)

lemma loop_inside:
  assumes "rawIndex st < length x" and "loop x v m st = Inr (ex, st')"
  shows "\<exists>w. maskedValue st' = maskedValue st @ w \<and> length w \<le> length m \<and>
           (\<forall>j < length w. v (m ! j) = None \<longrightarrow> w ! j = m ! j)"
  using assms
proof (induction m arbitrary: st)
  case Nil
  then show ?case by simp
next
  case (Cons c rest)
  obtain b s1 where b: "body x v c st = Inr (b, s1)"
    using body_Inr by blast
  from body_inside[OF Cons.prems(1) b] obtain u where
    u: "maskedValue s1 = maskedValue st @ u" "length u \<le> 1" "b = None \<longrightarrow> length u = 1"
       "v c = None \<longrightarrow> u = [c]"
    by (elim exE conjE) (rule that)
  show ?case
  proof (cases b)
    case (Some e)
    with b Cons.prems(2) have e: "st' = s1" by simp
    have "\<forall>j < length u. v ((c # rest) ! j) = None \<longrightarrow> u ! j = (c # rest) ! j"
    proof (intro allI impI)
      fix j assume j: "j < length u" and n: "v ((c # rest) ! j) = None"
      from j u(2) have "j = 0" by simp
      with n u(4) show "u ! j = (c # rest) ! j" by simp
    qed
    moreover have "length u \<le> length (c # rest)" using u(2) by simp
    ultimately show ?thesis using u(1) e by blast
  next
    case None
    let ?s = "s1\<lparr>maskIndex := Suc (maskIndex s1)\<rparr>"
    from None b Cons.prems(2) have run: "loop x v rest ?s = Inr (ex, st')" by simp
    have "rawIndex ?s < length x" using body_facts(4)[OF b None] by simp
    from Cons.IH[OF this run] obtain w where
      w: "maskedValue st' = maskedValue ?s @ w" "length w \<le> length rest"
         "\<forall>j < length w. v (rest ! j) = None \<longrightarrow> w ! j = rest ! j"
      by blast
    from u(3) None obtain a where a: "u = [a]"
      by (cases u) auto
    have "maskedValue st' = maskedValue st @ (a # w)" using w(1) u(1) a by simp
    moreover have "length (a # w) \<le> length (c # rest)" using w(2) by simp
    moreover have "\<forall>j < length (a # w). v ((c # rest) ! j) = None \<longrightarrow>
                     (a # w) ! j = (c # rest) ! j"
    proof (intro allI impI)
      fix j assume j: "j < length (a # w)" and n: "v ((c # rest) ! j) = None"
      show "(a # w) ! j = (c # rest) ! j"
      proof (cases j)
        case 0
        with n u(4) a show ?thesis by simp
      next
        case (Suc k)
        with j n w(3) show ?thesis by simp
      qed
    qed
    ultimately show ?thesis by blast
  qed
qed

lemma applyMask_length_bound:
  assumes "x \<noteq> []" and "applyMask x m v h = Inr out"
  shows "length out \<le> length m \<and> (\<forall>j < length out. v (m ! j) = None \<longrightarrow> out ! j = m ! j)"
proof -
  let ?i = "entry h"
  from assms(2) obtain ex st where run: "loop x v m ?i = Inr (ex, st)" and o: "out = maskedValue st"
    by (auto simp: applyMask_def applyMask_run_def entry_def split: sum.splits)
  have "rawIndex ?i < length x" using assms(1) by (simp add: entry_def)
  from loop_inside[OF this run] o show ?thesis by simp
qed

text \<open>The empty raw input: only mask position 0 is processed.\<close>

lemma applyMask_empty_cases:
  "applyMask [] m v h =
     (case m of
        [] \<Rightarrow> Inr []
      | c # rest \<Rightarrow>
          (case v c of
             None \<Rightarrow> Inr [c]
           | Some a \<Rightarrow>
               if fst (RegExp_test (h a) ''undefined'') then Inr ''undefined'' else Inr []))"
proof (cases m)
  case Nil
  then show ?thesis by (simp add: applyMask_def applyMask_run_def entry_def)
next
  case (Cons c rest)
  show ?thesis
  proof (cases "v c")
    case None
    with Cons show ?thesis
      by (simp add: applyMask_def applyMask_run_def entry_def body_literal get_index_def)
  next
    case (Some a)
    with Cons show ?thesis
      by (simp add: applyMask_def applyMask_run_def entry_def
            body_slot[where v=v and c=c and a=a] get_index_def ToString_def Let_def)
  qed
qed

text \<open>
  So the output is no longer than the mask, with every literal at its mask position,
  for every non-empty raw input, and for the empty one too unless a rule accepts the text
  \<^verbatim>\<open>"undefined"\<close>.
\<close>

lemma applyMask_length_bound_all:
  assumes "x \<noteq> [] \<or> (\<forall>c a. v c = Some a \<longrightarrow> \<not> fst (RegExp_test (h a) ''undefined''))"
    and "applyMask x m v h = Inr out"
  shows "length out \<le> length m \<and> (\<forall>j < length out. v (m ! j) = None \<longrightarrow> out ! j = m ! j)"
proof (cases "x = []")
  case False
  from applyMask_length_bound[OF False assms(2)] show ?thesis .
next
  case True
  with assms show ?thesis
    by (auto simp: applyMask_empty_cases split: list.splits option.splits if_splits)
qed

text \<open>
  C3. The spec bounds the length of the output by the length of the mask, for every raw
  input, and has every literal of the output at its mask position. The code breaks both
  on the empty raw input when the mask starts with a slot whose rule accepts the text
  \<^verbatim>\<open>"undefined"\<close>, as \<^verbatim>\<open>/[a-z]/\<close> does: \<^verbatim>\<open>value[0]\<close> is
  \<^verbatim>\<open>undefined\<close>, the test converts it to that text and passes, and
  \<^verbatim>\<open>maskedValue += inputChar\<close> appends the nine characters. Under the mask
  \<^verbatim>\<open>"a/"\<close> the output \<^verbatim>\<open>"undefined"\<close> is longer than the mask and has
  \<^verbatim>\<open>n\<close> where the mask has the literal \<^verbatim>\<open>/\<close>.
\<close>

theorem applyMask_undefined_exceeds_mask:
  "applyMask [] ''a/'' [CHR ''a'' \<mapsto> 0] (heap_of re_lower) = Inr ''undefined'' \<and>
   length ''a/'' < length ''undefined'' \<and>
   [CHR ''a'' \<mapsto> (0::nat)] (''a/'' ! 1) = None \<and> ''undefined'' ! 1 \<noteq> ''a/'' ! 1"
proof (intro conjI)
  show "applyMask [] ''a/'' [CHR ''a'' \<mapsto> 0] (heap_of re_lower) = Inr ''undefined''" by code_simp
qed simp_all

section \<open>Extending the raw input\<close>

text \<open>The loop only ever appends to the output.\<close>

lemma loop_appends:
  assumes "loop x v m st = Inr (ex, st')"
  shows "\<exists>w. maskedValue st' = maskedValue st @ w"
  using assms
proof (induction m arbitrary: st)
  case Nil
  then show ?case by simp
next
  case (Cons c rest)
  obtain b s1 where b: "body x v c st = Inr (b, s1)"
    using body_Inr by blast
  have u: "\<exists>u. maskedValue s1 = maskedValue st @ u"
    using b unfolding body_def check_end_def
    by (auto simp: Let_def split: option.splits prod.splits bool.splits if_splits)
  show ?case
  proof (cases b)
    case (Some e)
    with b Cons.prems u show ?thesis by simp
  next
    case None
    from None b Cons.prems
    have "loop x v rest (s1\<lparr>maskIndex := Suc (maskIndex s1)\<rparr>) = Inr (ex, st')" by simp
    from Cons.IH[OF this] u show ?thesis by auto
  qed
qed

text \<open>
  With the cursor inside \<open>y\<close>, the body does on \<open>y @ z\<close> what it does on
  \<open>y\<close>, except that it may go on where the input \<open>y\<close> was exhausted.
\<close>

lemma body_longer_input:
  assumes "rawIndex st < length y" and "body y v c st = Inr (b, s1)"
  shows "body (y @ z) v c st =
           Inr (if b = Some InputExhausted \<and> rawIndex s1 < length (y @ z) then None else b, s1)"
  using assms unfolding body_def check_end_def
  by (auto simp: Let_def get_index_def nth_append
           split: option.splits prod.splits bool.splits if_splits)

lemma loop_longer_input:
  assumes "rawIndex st < length y"
    and "loop y v m st = Inr (ex, st')" and "loop (y @ z) v m st = Inr (ex2, st2)"
  shows "\<exists>t. maskedValue st2 = maskedValue st' @ t"
  using assms
proof (induction m arbitrary: st)
  case Nil
  then show ?case by simp
next
  case (Cons c rest)
  obtain b s1 where b: "body y v c st = Inr (b, s1)"
    using body_Inr by blast
  note b2 = body_longer_input[OF Cons.prems(1) b, of z]
  let ?s = "s1\<lparr>maskIndex := Suc (maskIndex s1)\<rparr>"
  show ?case
  proof (cases b)
    case None
    from None b Cons.prems(2) have r1: "loop y v rest ?s = Inr (ex, st')" by simp
    from None b2 Cons.prems(3) have r2: "loop (y @ z) v rest ?s = Inr (ex2, st2)" by simp
    have "rawIndex ?s < length y" using body_facts(4)[OF b None] by simp
    from Cons.IH[OF this r1 r2] show ?thesis .
  next
    case (Some e)
    with b Cons.prems(2) have e: "st' = s1" by simp
    show ?thesis
    proof (cases "e = InputExhausted \<and> rawIndex s1 < length (y @ z)")
      case True
      with Some b2 Cons.prems(3) have "loop (y @ z) v rest ?s = Inr (ex2, st2)" by simp
      from loop_appends[OF this] e show ?thesis by simp
    next
      case False
      with Some b2 Cons.prems(3) have "st2 = s1" by auto
      with e show ?thesis by simp
    qed
  qed
qed

lemma applyMask_prefix_monotone:
  assumes "y \<noteq> []" and "applyMask y m v h = Inr oy" and "applyMask (y @ z) m v h = Inr ox"
  shows "\<exists>t. ox = oy @ t"
proof -
  let ?i = "entry h"
  from assms(2) obtain ex st where r1: "loop y v m ?i = Inr (ex, st)" and o1: "oy = maskedValue st"
    by (auto simp: applyMask_def applyMask_run_def entry_def split: sum.splits)
  from assms(3) obtain ex2 st2 where r2: "loop (y @ z) v m ?i = Inr (ex2, st2)"
    and o2: "ox = maskedValue st2"
    by (auto simp: applyMask_def applyMask_run_def entry_def split: sum.splits)
  have "rawIndex ?i < length y" using assms(1) by (simp add: entry_def)
  from loop_longer_input[OF this r1 r2] o1 o2 show ?thesis by simp
qed

lemma applyMask_prefix_monotone_all:
  assumes "y \<noteq> [] \<or> (\<forall>c a. v c = Some a \<longrightarrow> \<not> fst (RegExp_test (h a) ''undefined''))"
    and "applyMask y m v h = Inr oy" and "applyMask (y @ z) m v h = Inr ox"
  shows "\<exists>t. ox = oy @ t"
proof (cases "y = []")
  case False
  from applyMask_prefix_monotone[OF False assms(2,3)] show ?thesis .
next
  case True
  show ?thesis
  proof (cases "oy = []")
    case True
    then show ?thesis by simp
  next
    case False
    with True assms(1,2) obtain c rest where m: "m = c # rest" "v c = None" "oy = [c]"
      by (auto simp: applyMask_empty_cases split: list.splits option.splits if_splits)
    let ?i = "entry h"
    from assms(3) m obtain ex st where run: "loop (y @ z) v (c # rest) ?i = Inr (ex, st)"
      and o: "ox = maskedValue st"
      by (auto simp: applyMask_def applyMask_run_def entry_def split: sum.splits)
    obtain b s1 where b: "body (y @ z) v c ?i = Inr (b, s1)" using body_Inr by blast
    with m(2) have m1: "maskedValue s1 = [c]" by (auto simp: body_literal)
    have "\<exists>w. maskedValue st = maskedValue s1 @ w"
    proof (cases b)
      case None
      with b run have "loop (y @ z) v rest (s1\<lparr>maskIndex := Suc (maskIndex s1)\<rparr>) = Inr (ex, st)"
        by simp
      from loop_appends[OF this] show ?thesis by simp
    next
      case (Some e)
      with b run show ?thesis by simp
    qed
    with m1 o m(3) show ?thesis by simp
  qed
qed

text \<open>
  C7. The spec has the output for a prefix \<open>y\<close> of \<open>x\<close> be a prefix of the
  output for \<open>x\<close>. The code breaks it for the empty prefix when the mask starts
  with a slot whose rule accepts the text \<^verbatim>\<open>"undefined"\<close>: under the mask
  \<^verbatim>\<open>"aa"\<close> with \<^verbatim>\<open>/[a-z]/\<close> the empty input gives
  \<^verbatim>\<open>"undefined"\<close> and the input \<^verbatim>\<open>"bc"\<close> gives \<^verbatim>\<open>"bc"\<close>.
\<close>

theorem applyMask_not_prefix_monotone:
  "applyMask [] ''aa'' [CHR ''a'' \<mapsto> 0] (heap_of re_lower) = Inr ''undefined'' \<and>
   applyMask ([] @ ''bc'') ''aa'' [CHR ''a'' \<mapsto> 0] (heap_of re_lower) = Inr ''bc'' \<and>
   take (length ''undefined'') ''bc'' \<noteq> ''undefined''"
proof (intro conjI)
  show "applyMask [] ''aa'' [CHR ''a'' \<mapsto> 0] (heap_of re_lower) = Inr ''undefined''" by code_simp
  show "applyMask ([] @ ''bc'') ''aa'' [CHR ''a'' \<mapsto> 0] (heap_of re_lower) = Inr ''bc''" by code_simp
  show "take (length ''undefined'') ''bc'' \<noteq> ''undefined''" by simp
qed

section \<open>Masking a masked value\<close>

text \<open>A rule without the flags \<^verbatim>\<open>g\<close> and \<^verbatim>\<open>y\<close> is not changed by a test.\<close>

lemma test_stateless:
  assumes "\<not> global R" and "\<not> sticky R"
  shows "snd (RegExp_test R S) = R"
  using assms by (simp add: RegExp_test_def Let_def split: option.splits)

lemma body_stateless:
  assumes "\<forall>d a. v d = Some a \<longrightarrow> \<not> global (objects st a) \<and> \<not> sticky (objects st a)"
    and "body x v c st = Inr (b, s1)"
  shows "objects s1 = objects st"
proof (cases "v c")
  case None
  with assms(2) show ?thesis by (auto simp: body_literal)
next
  case (Some a)
  with assms(1)
  have "snd (RegExp_test (objects st a) (ToString (get_index x (rawIndex st)))) = objects st a"
    by (simp add: test_stateless)
  then have "(objects st)(a := snd (RegExp_test (objects st a)
                 (ToString (get_index x (rawIndex st))))) = objects st"
    by simp
  with assms(2) show ?thesis
    by (auto simp: body_slot[where v=v and c=c and a=a, OF Some] Let_def split: if_splits)
qed

lemma loop_stateless:
  assumes "\<forall>d a. v d = Some a \<longrightarrow> \<not> global (objects st a) \<and> \<not> sticky (objects st a)"
    and "loop x v m st = Inr (ex, st')"
  shows "objects st' = objects st"
  using assms
proof (induction m arbitrary: st)
  case Nil
  then show ?case by simp
next
  case (Cons c rest)
  obtain b s1 where b: "body x v c st = Inr (b, s1)"
    using body_Inr by blast
  note r = body_stateless[OF Cons.prems(1) b]
  show ?case
  proof (cases b)
    case None
    let ?s = "s1\<lparr>maskIndex := Suc (maskIndex s1)\<rparr>"
    from None b Cons.prems(2) have run: "loop x v rest ?s = Inr (ex, st')" by simp
    have "\<forall>d a. v d = Some a \<longrightarrow> \<not> global (objects ?s a) \<and> \<not> sticky (objects ?s a)"
      using Cons.prems(1) r by simp
    from Cons.IH[OF this run] r show ?thesis by simp
  next
    case (Some e)
    with b Cons.prems(2) r show ?thesis by simp
  qed
qed

text \<open>
  Replaying the output: where a run on \<open>x\<close> appended the character \<open>a\<close> at a
  mask position, a run whose raw input has \<open>a\<close> at the cursor appends it too.
\<close>

lemma body_replay:
  assumes sl: "\<forall>d a. v d = Some a \<longrightarrow> \<not> global (objects st a) \<and> \<not> sticky (objects st a)"
    and r: "rawIndex st < length x"
    and b: "body x v c st = Inr (b, s1)"
    and a: "maskedValue s1 = maskedValue st @ [a]"
    and t: "objects t = objects st" "rawIndex t = length pre"
  shows "body (pre @ a # w) v c t =
           Inr (if w = [] then Some InputExhausted else None,
                t\<lparr>maskedValue := maskedValue t @ [a], rawIndex := Suc (length pre)\<rparr>)"
proof (cases "v c")
  case None
  with b a have "a = c" by (auto simp: body_literal)
  then show ?thesis
    using t(2) None by (cases w) (simp_all add: body_literal get_index_def)
next
  case (Some k)
  from r have g: "get_index x (rawIndex st) = Some (x ! rawIndex st)"
    by (simp add: get_index_def)
  from sl Some have st: "\<not> global (objects st k)" "\<not> sticky (objects st k)" by auto
  let ?R = "objects st k"
  have sn: "snd (RegExp_test ?R S) = ?R" for S
    using test_stateless[OF st] .
  from b a g have ok: "fst (RegExp_test ?R [x ! rawIndex st])" and ax: "a = x ! rawIndex st"
    by (auto simp: body_slot[where v=v and c=c and a=k, OF Some] Let_def ToString_def
             split: if_splits)
  have ta: "fst (RegExp_test (objects t k) [a])" using ok ax t(1) by simp
  have up: "(objects t)(k := snd (RegExp_test (objects t k) [a])) = objects t"
    using sn[of "[a]"] t(1) by simp
  have gt: "get_index (pre @ a # w) (rawIndex t) = Some a"
    using t(2) by (simp add: get_index_def)
  show ?thesis
    using gt ta up t(2)
    by (cases w) (simp_all add: body_slot[where v=v and c=c and a=k, OF Some] Let_def ToString_def)
qed

lemma loop_replay:
  assumes "\<forall>d a. v d = Some a \<longrightarrow> \<not> global (objects st a) \<and> \<not> sticky (objects st a)"
    and "rawIndex st < length x"
    and "loop x v m st = Inr (ex, st')"
    and "maskedValue st' = maskedValue st @ w" and "w \<noteq> []"
    and "objects t = objects st" and "rawIndex t = length pre"
  shows "\<exists>ex' t'. loop (pre @ w) v m t = Inr (ex', t') \<and> maskedValue t' = maskedValue t @ w"
  using assms
proof (induction m arbitrary: st t pre w)
  case Nil
  then show ?case by simp
next
  case (Cons c rest)
  obtain b s1 where b: "body x v c st = Inr (b, s1)"
    using body_Inr by blast
  from body_inside[OF Cons.prems(2) b] obtain u where
    u: "maskedValue s1 = maskedValue st @ u" "length u \<le> 1" "b = None \<longrightarrow> length u = 1"
    by (elim exE conjE) (rule that)
  let ?s = "s1\<lparr>maskIndex := Suc (maskIndex s1)\<rparr>"
  have tail: "\<exists>w'. maskedValue st' = maskedValue s1 @ w' \<and>
                 (b \<noteq> None \<longrightarrow> w' = []) \<and>
                 (b = None \<longrightarrow> loop x v rest ?s = Inr (ex, st'))"
  proof (cases b)
    case None
    from None b Cons.prems(3) have run: "loop x v rest ?s = Inr (ex, st')" by simp
    from loop_appends[OF run] None run show ?thesis by simp
  next
    case (Some e)
    with b Cons.prems(3) show ?thesis by simp
  qed
  then obtain w' where
    w': "maskedValue st' = maskedValue s1 @ w'" "b \<noteq> None \<longrightarrow> w' = []"
        "b = None \<longrightarrow> loop x v rest ?s = Inr (ex, st')"
    by (elim exE conjE) (rule that)
  from w'(1) u(1) Cons.prems(4) have w: "w = u @ w'" by simp
  have "u \<noteq> []"
  proof
    assume "u = []"
    with u(3) have "b \<noteq> None" by auto
    with w'(2) w \<open>u = []\<close> Cons.prems(5) show False by simp
  qed
  with u(2) obtain a where a: "u = [a]"
    by (cases u) auto
  let ?t1 = "t\<lparr>maskedValue := maskedValue t @ [a], rawIndex := Suc (length pre)\<rparr>"
  have bt: "body (pre @ a # w') v c t =
           Inr (if w' = [] then Some InputExhausted else None, ?t1)"
    using body_replay[OF Cons.prems(1,2) b _ Cons.prems(6,7)] u(1) a by simp
  show ?case
  proof (cases "w' = []")
    case True
    with bt w a show ?thesis by simp
  next
    case False
    with w'(2) have bn: "b = None" by auto
    with w'(3) have run: "loop x v rest ?s = Inr (ex, st')" by simp
    let ?t2 = "?t1\<lparr>maskIndex := Suc (maskIndex ?t1)\<rparr>"
    have rs: "objects ?s = objects st"
      using body_stateless[OF Cons.prems(1) b] by simp
    have h1: "\<forall>d a. v d = Some a \<longrightarrow> \<not> global (objects ?s a) \<and> \<not> sticky (objects ?s a)"
      using Cons.prems(1) rs by simp
    have h2: "rawIndex ?s < length x" using body_facts(4)[OF b bn] by simp
    have h4: "maskedValue st' = maskedValue ?s @ w'" using w'(1) by simp
    have h6: "objects ?t2 = objects ?s" using Cons.prems(6) rs by simp
    have h7: "rawIndex ?t2 = length (pre @ [a])" by simp
    from Cons.IH[OF h1 h2 run h4 False h6 h7] obtain ex' t' where
      r: "loop ((pre @ [a]) @ w') v rest ?t2 = Inr (ex', t')"
         "maskedValue t' = maskedValue ?t2 @ w'"
      by blast
    from r(1) bt False have "loop (pre @ w) v (c # rest) t = Inr (ex', t')"
      using w a by simp
    moreover have "maskedValue t' = maskedValue t @ w" using r(2) w a by simp
    ultimately show ?thesis by blast
  qed
qed

text \<open>
  When no rule carries \<^verbatim>\<open>g\<close> or \<^verbatim>\<open>y\<close> and no rule accepts the text
  \<^verbatim>\<open>"undefined"\<close>, masking the output again returns it.
\<close>

lemma applyMask_idempotent_stateless:
  assumes sl: "\<forall>c a. v c = Some a \<longrightarrow>
                 \<not> global (h a) \<and> \<not> sticky (h a) \<and> \<not> fst (RegExp_test (h a) ''undefined'')"
    and out: "applyMask x m v h = Inr out"
  shows "applyMask out m v h = Inr out"
proof (cases "out = []")
  case True
  have "applyMask [] m v h = Inr []"
  proof (cases m)
    case Nil
    then show ?thesis by (simp add: applyMask_empty_cases)
  next
    case (Cons c rest)
    have "v c \<noteq> None"
    proof
      assume n: "v c = None"
      obtain b s1 where b: "body x v c (entry h) = Inr (b, s1)" using body_Inr by blast
      with n have m1: "maskedValue s1 = [c]" by (auto simp: body_literal entry_def)
      from out Cons obtain ex st where run: "loop x v (c # rest) (entry h) = Inr (ex, st)"
        and o: "out = maskedValue st"
        by (auto simp: applyMask_def applyMask_run_def split: sum.splits)
      have "\<exists>w. maskedValue st = maskedValue s1 @ w"
      proof (cases b)
        case None
        with b run have "loop x v rest (s1\<lparr>maskIndex := Suc (maskIndex s1)\<rparr>) = Inr (ex, st)"
          by simp
        from loop_appends[OF this] show ?thesis by simp
      next
        case (Some e)
        with b run show ?thesis by simp
      qed
      with m1 o True show False by simp
    qed
    then obtain a where "v c = Some a" by blast
    with sl Cons show ?thesis by (simp add: applyMask_empty_cases)
  qed
  with True show ?thesis by simp
next
  case False
  show ?thesis
  proof (cases "x = []")
    case True
    with out False sl obtain c rest where m: "m = c # rest" "v c = None" "out = [c]"
      by (auto simp: applyMask_empty_cases split: list.splits option.splits if_splits)
    then show ?thesis
      by (simp add: applyMask_def applyMask_run_def entry_def body_literal get_index_def)
  next
    case xne: False
    from out obtain ex st where run: "loop x v m (entry h) = Inr (ex, st)"
      and o: "out = maskedValue st"
      by (auto simp: applyMask_def applyMask_run_def split: sum.splits)
    have h1: "\<forall>d a. v d = Some a \<longrightarrow>
                \<not> global (objects (entry h) a) \<and> \<not> sticky (objects (entry h) a)"
      using sl by (simp add: entry_def)
    have h2: "rawIndex (entry h) < length x" using xne by (simp add: entry_def)
    have h4: "maskedValue st = maskedValue (entry h) @ out" using o by (simp add: entry_def)
    have h6: "objects (entry h) = objects (entry h)" by simp
    have h7: "rawIndex (entry h) = length ([] :: string)" by (simp add: entry_def)
    from loop_replay[OF h1 h2 run h4 False h6 h7] obtain ex' t' where
      "loop ([] @ out) v m (entry h) = Inr (ex', t')" "maskedValue t' = maskedValue (entry h) @ out"
      by blast
    then show ?thesis by (simp add: applyMask_def applyMask_run_def entry_def)
  qed
qed

lemma applyMask_twice_stateless:
  assumes "\<forall>c a. v c = Some a \<longrightarrow>
             \<not> global (h a) \<and> \<not> sticky (h a) \<and> \<not> fst (RegExp_test (h a) ''undefined'')"
  shows "applyMask_twice x m v h = applyMask x m v h"
proof -
  obtain ex st where run: "loop x v m (entry h) = Inr (ex, st)"
    using loop_Inr by blast
  have "\<forall>d a. v d = Some a \<longrightarrow>
          \<not> global (objects (entry h) a) \<and> \<not> sticky (objects (entry h) a)"
    using assms by (simp add: entry_def)
  from loop_stateless[OF this run] have r: "objects st = h" by (simp add: entry_def)
  from run have o: "applyMask x m v h = Inr (maskedValue st)"
    by (simp add: applyMask_def applyMask_run_def)
  from applyMask_idempotent_stateless[OF assms o] run r o show ?thesis
    by (simp add: applyMask_twice_def applyMask_run_def)
qed

text \<open>The pattern of the README, \<^verbatim>\<open>/\d/g\<close>, fails every second test in a run.\<close>

lemma applyMask_global_rule:
  "applyMask ''01012024'' ''99/99/9999'' [CHR ''9'' \<mapsto> 0] (heap_of re_digit_g) = Inr ''0''"
  by code_simp

text \<open>
  Two keys that hold the same stateful object share its \<open>lastIndex\<close>: with one
  \<^verbatim>\<open>/\d/g\<close> under both \<^verbatim>\<open>9\<close> and \<^verbatim>\<open>8\<close> the second slot
  fails, with an object each it passes.
\<close>

lemma applyMask_shared_rule:
  "applyMask ''12'' ''98'' [CHR ''9'' \<mapsto> 0, CHR ''8'' \<mapsto> 0] (heap_of re_digit_g) = Inr ''1'' \<and>
   applyMask ''12'' ''98'' [CHR ''9'' \<mapsto> 0, CHR ''8'' \<mapsto> 1] (heap_of re_digit_g) = Inr ''12''"
proof
  show "applyMask ''12'' ''98'' [CHR ''9'' \<mapsto> 0, CHR ''8'' \<mapsto> 0] (heap_of re_digit_g) = Inr ''1''"
    by code_simp
  show "applyMask ''12'' ''98'' [CHR ''9'' \<mapsto> 0, CHR ''8'' \<mapsto> 1] (heap_of re_digit_g) = Inr ''12''"
    by code_simp
qed

text \<open>
  C5. The spec has \<^verbatim>\<open>applyMask\<close> idempotent on its own output. The code breaks
  it in two ways. With the rule \<^verbatim>\<open>/[a-z]/\<close> under the mask \<^verbatim>\<open>"a"\<close>
  the raw input \<^verbatim>\<open>"1"\<close> gives the empty output, and the empty raw input gives
  \<^verbatim>\<open>"undefined"\<close>. With the rule \<^verbatim>\<open>/\d/g\<close> under the mask
  \<^verbatim>\<open>"9"\<close> the raw input \<^verbatim>\<open>"1"\<close> gives \<^verbatim>\<open>"1"\<close> and leaves the
  rule's \<open>lastIndex\<close> at 1, so the second call, on the same object, rejects the
  \<^verbatim>\<open>"1"\<close> and gives the empty output.
\<close>

theorem applyMask_not_idempotent:
  "applyMask ''1'' ''a'' [CHR ''a'' \<mapsto> 0] (heap_of re_lower) = Inr [] \<and>
   applyMask_twice ''1'' ''a'' [CHR ''a'' \<mapsto> 0] (heap_of re_lower) = Inr ''undefined'' \<and>
   applyMask ''1'' ''9'' [CHR ''9'' \<mapsto> 0] (heap_of re_digit_g) = Inr ''1'' \<and>
   applyMask_twice ''1'' ''9'' [CHR ''9'' \<mapsto> 0] (heap_of re_digit_g) = Inr []"
proof (intro conjI)
  show "applyMask ''1'' ''a'' [CHR ''a'' \<mapsto> 0] (heap_of re_lower) = Inr []" by code_simp
  show "applyMask_twice ''1'' ''a'' [CHR ''a'' \<mapsto> 0] (heap_of re_lower) = Inr ''undefined''"
    by code_simp
  show "applyMask ''1'' ''9'' [CHR ''9'' \<mapsto> 0] (heap_of re_digit_g) = Inr ''1''" by code_simp
  show "applyMask_twice ''1'' ''9'' [CHR ''9'' \<mapsto> 0] (heap_of re_digit_g) = Inr []" by code_simp
qed

end
